theory Spec2Isabelle
  imports Main "HOL-Library.Word"
begin

section \<open>Token kinds\<close>

text \<open>
  The external scanner of the Razor grammar (\<^verbatim>\<open>src/scanner.c\<close>) wraps the scanner of
  the C\# grammar. The C\# scanner owns the token kinds \<open>0 .. 11\<close>; the Razor kinds are
  the enumeration \<^verbatim>\<open>RazorTokenType\<close>, which starts at \<^verbatim>\<open>CSHARP_TOKEN_COUNT\<close>.
\<close>

definition CSHARP_TOKEN_COUNT :: nat where "CSHARP_TOKEN_COUNT = 12"
definition TEXT_WITH_LITERAL_AT :: nat where "TEXT_WITH_LITERAL_AT = 12"
definition HTML_TEXT_CONTENT :: nat where "HTML_TEXT_CONTENT = 13"
definition CSHARP_CODE_BLOCK_START :: nat where "CSHARP_CODE_BLOCK_START = 14"
definition CSHARP_EXPLICIT_EXPR_START :: nat where "CSHARP_EXPLICIT_EXPR_START = 15"
definition RAZOR_BLOCK_OPEN :: nat where "RAZOR_BLOCK_OPEN = 16"
definition CSHARP_CONTEXT_CLOSE :: nat where "CSHARP_CONTEXT_CLOSE = 17"
definition CSHARP_COMMENT :: nat where "CSHARP_COMMENT = 18"
definition CSHARP_PREPROC :: nat where "CSHARP_PREPROC = 19"
definition SCRIPT_CONTENT :: nat where "SCRIPT_CONTENT = 20"
definition STYLE_CONTENT :: nat where "STYLE_CONTENT = 21"
definition TITLE_CONTENT :: nat where "TITLE_CONTENT = 22"
definition TEXTAREA_CONTENT :: nat where "TEXTAREA_CONTENT = 23"

lemmas token_defs =
  CSHARP_TOKEN_COUNT_def TEXT_WITH_LITERAL_AT_def HTML_TEXT_CONTENT_def
  CSHARP_CODE_BLOCK_START_def CSHARP_EXPLICIT_EXPR_START_def RAZOR_BLOCK_OPEN_def
  CSHARP_CONTEXT_CLOSE_def CSHARP_COMMENT_def CSHARP_PREPROC_def SCRIPT_CONTENT_def
  STYLE_CONTENT_def TITLE_CONTENT_def TEXTAREA_CONTENT_def

section \<open>Scanner state\<close>

text \<open>
  \<^verbatim>\<open>ContextType\<close>: the tags kept on the context stack. The stack itself is an
  \<^verbatim>\<open>Array(uint8_t)\<close>, so its elements are bytes; deserialisation copies raw bytes
  into it.
\<close>

type_synonym byte = "8 word"

definition CONTEXT_HTML :: byte where "CONTEXT_HTML = 0"
definition CONTEXT_CSHARP_BRACE :: byte where "CONTEXT_CSHARP_BRACE = 1"
definition CONTEXT_CSHARP_PAREN :: byte where "CONTEXT_CSHARP_PAREN = 2"

lemmas context_defs = CONTEXT_HTML_def CONTEXT_CSHARP_BRACE_def CONTEXT_CSHARP_PAREN_def

text \<open>
  \<^verbatim>\<open>RazorScanner\<close>: the state of the embedded C\# scanner (opaque, of any type
  \<open>'cs\<close>) and the context stack. The top of the stack is the last element.
\<close>

record 'cs RazorScanner =
  csharp_scanner :: 'cs
  context_stack :: "byte list"

definition in_csharp_context :: "'cs RazorScanner \<Rightarrow> bool" where
  "in_csharp_context scanner = (length (context_stack scanner) > 0)"

section \<open>The lexer\<close>

text \<open>
  Modelled from the spec: the lexer capability \<^verbatim>\<open>TSLexer\<close> is owned by the host
  and is not part of the scanner's source. Following section 3 and section 6 of the
  specification it offers the current lookahead code point (or an end marker),
  advancing with the character included in the token or skipped as trivia, marking the
  token's end, an end-of-input test and a slot for the token kind.

  The input still to be read is \<open>rest\<close>; \<open>pos\<close> counts the code points consumed so
  far; \<open>tok_start\<close> is where the token begins (moved by every skip); \<open>mark\<close> is the
  marked end, if any. At the end of input the lookahead is the end marker \<open>0\<close> and
  advancing does nothing.
\<close>

record lexer =
  rest :: "int list"
  pos :: nat
  tok_start :: nat
  mark :: "nat option"
  result_symbol :: nat

definition lookahead :: "lexer \<Rightarrow> int" where
  "lookahead lx = (case rest lx of [] \<Rightarrow> 0 | c # _ \<Rightarrow> c)"

definition eof :: "lexer \<Rightarrow> bool" where
  "eof lx = (rest lx = [])"

definition advance :: "lexer \<Rightarrow> bool \<Rightarrow> lexer" where
  "advance lx skip =
     (case rest lx of
        [] \<Rightarrow> lx
      | _ # cs \<Rightarrow>
          lx\<lparr>rest := cs, pos := Suc (pos lx),
             tok_start := (if skip then Suc (pos lx) else tok_start lx)\<rparr>)"

definition mark_end :: "lexer \<Rightarrow> lexer" where
  "mark_end lx = lx\<lparr>mark := Some (pos lx)\<rparr>"

text \<open>A lexer at the start of a token, on the input \<open>inp\<close>.\<close>

definition lexer_on :: "int list \<Rightarrow> lexer" where
  "lexer_on inp = \<lparr>rest = inp, pos = 0, tok_start = 0, mark = None, result_symbol = 0\<rparr>"

text \<open>
  The host ends a committed token at the marked end, or at the current position when
  the scanner never marked one.
\<close>

definition token_end :: "lexer \<Rightarrow> nat" where
  "token_end lx = (case mark lx of None \<Rightarrow> pos lx | Some m \<Rightarrow> m)"

definition token_text :: "int list \<Rightarrow> lexer \<Rightarrow> int list" where
  "token_text inp lx = take (token_end lx - tok_start lx) (drop (tok_start lx) inp)"

text \<open>The two helpers of the source.\<close>

definition razor_advance :: "lexer \<Rightarrow> lexer" where
  "razor_advance lx = advance lx False"

definition razor_skip :: "lexer \<Rightarrow> lexer" where
  "razor_skip lx = advance lx True"

text \<open>Code points of the characters the scanner tests for.\<close>

abbreviation (input) ch :: "char \<Rightarrow> int" where
  "ch c \<equiv> int (of_char c)"

definition codes :: "string \<Rightarrow> int list" where
  "codes s = map (\<lambda>c. int (of_char c)) s"

text \<open>
  Modelled from the spec: \<^verbatim>\<open>iswspace\<close> belongs to the C library. The specification
  only calls the characters it accepts whitespace; this is the classification of the
  C locale: space, tab, line feed, vertical tab, form feed and carriage return.
\<close>

definition iswspace :: "int \<Rightarrow> bool" where
  "iswspace c = (c = 32 \<or> (9 \<le> c \<and> c \<le> 13))"

section \<open>Character classifier\<close>

definition is_unicode_letter :: "int \<Rightarrow> bool" where
  "is_unicode_letter c =
     (if (c \<ge> 65 \<and> c \<le> 90) \<or> (c \<ge> 97 \<and> c \<le> 122) then True
      else if c \<ge> 0x00C0 \<and> c \<le> 0x00FF \<and> c \<noteq> 0x00D7 \<and> c \<noteq> 0x00F7 then True
      else if c \<ge> 0x0100 \<and> c \<le> 0x017F then True
      else if c \<ge> 0x0180 \<and> c \<le> 0x024F then True
      else if c \<ge> 0x0370 \<and> c \<le> 0x03FF then True
      else if c \<ge> 0x0400 \<and> c \<le> 0x04FF then True
      else if c \<ge> 0x0590 \<and> c \<le> 0x05FF then True
      else if c \<ge> 0x0600 \<and> c \<le> 0x06FF then True
      else if c \<ge> 0x0900 \<and> c \<le> 0x097F then True
      else if c \<ge> 0x0E00 \<and> c \<le> 0x0E7F then True
      else if c \<ge> 0x4E00 \<and> c \<le> 0x9FFF then True
      else if c \<ge> 0x3040 \<and> c \<le> 0x309F then True
      else if c \<ge> 0x30A0 \<and> c \<le> 0x30FF then True
      else if c \<ge> 0xAC00 \<and> c \<le> 0xD7AF then True
      else False)"

definition is_unicode_digit :: "int \<Rightarrow> bool" where
  "is_unicode_digit c = (if c \<ge> 48 \<and> c \<le> 57 then True else False)"

definition is_email_char :: "int \<Rightarrow> bool" where
  "is_email_char c = (is_unicode_letter c \<or> is_unicode_digit c)"

definition is_identifier_char :: "int \<Rightarrow> bool" where
  "is_identifier_char c = (is_unicode_letter c \<or> is_unicode_digit c \<or> c = 95)"

lemma is_email_char_0 [simp]: "\<not> is_email_char 0"
  by (simp add: is_email_char_def is_unicode_letter_def is_unicode_digit_def)

lemma is_identifier_char_0 [simp]: "\<not> is_identifier_char 0"
  by (simp add: is_identifier_char_def is_unicode_letter_def is_unicode_digit_def)

lemma iswspace_0 [simp]: "\<not> iswspace 0"
  by (simp add: iswspace_def)

section \<open>Facts about the lexer\<close>

lemma rest_razor_advance_le: "length (rest (razor_advance lx)) \<le> length (rest lx)"
  by (simp add: razor_advance_def advance_def split: list.split)

lemma rest_razor_advance_less:
  "\<not> eof lx \<Longrightarrow> length (rest (razor_advance lx)) < length (rest lx)"
  by (simp add: razor_advance_def advance_def eof_def split: list.split)

lemma rest_razor_skip_less:
  "\<not> eof lx \<Longrightarrow> length (rest (razor_skip lx)) < length (rest lx)"
  by (simp add: razor_skip_def advance_def eof_def split: list.split)

lemma rest_mark_end [simp]: "rest (mark_end lx) = rest lx"
  by (simp add: mark_end_def)

lemma eof_mark_end [simp]: "eof (mark_end lx) = eof lx"
  by (simp add: eof_def)

lemma lookahead_mark_end [simp]: "lookahead (mark_end lx) = lookahead lx"
  by (simp add: lookahead_def)

lemma lookahead_eof: "eof lx \<Longrightarrow> lookahead lx = 0"
  by (simp add: lookahead_def eof_def)

lemma email_char_not_eof: "is_email_char (lookahead lx) \<Longrightarrow> \<not> eof lx"
  using lookahead_eof [of lx] by auto

lemma identifier_char_not_eof: "is_identifier_char (lookahead lx) \<Longrightarrow> \<not> eof lx"
  using lookahead_eof [of lx] by auto

lemma iswspace_not_eof: "iswspace (lookahead lx) \<Longrightarrow> \<not> eof lx"
  using lookahead_eof [of lx] by auto

lemma nonzero_not_eof: "lookahead lx = c \<Longrightarrow> c \<noteq> 0 \<Longrightarrow> \<not> eof lx"
  using lookahead_eof [of lx] by auto

section \<open>Outcome of a token family\<close>

text \<open>
  The scan function is a sequence of blocks, one per token family. A block either
  returns (\<^verbatim>\<open>return true\<close> after setting the token kind and perhaps changing the
  context stack, or \<^verbatim>\<open>return false\<close>), or control falls out of it to the next
  block, with the lexer where the block left it.
\<close>

datatype 'cs outcome =
  Return bool "'cs RazorScanner" lexer
| Fallthrough lexer

definition commit :: "'cs RazorScanner \<Rightarrow> lexer \<Rightarrow> nat \<Rightarrow> 'cs outcome" where
  "commit scanner lx symbol = Return True scanner (lx\<lparr>result_symbol := symbol\<rparr>)"

section \<open>Text containing a literal at-sign\<close>

text \<open>
  The inner loop of the \<^verbatim>\<open>TEXT_WITH_LITERAL_AT\<close> block: after \<open>word@word\<close> it
  consumes the rest of the domain-like run.
\<close>

function email_tail :: "lexer \<Rightarrow> lexer" where
  "email_tail lx =
     (if is_email_char (lookahead lx) \<or> lookahead lx = ch CHR ''.'' \<or> lookahead lx = ch CHR ''-''
      then email_tail (razor_advance lx)
      else lx)"
  by pat_completeness auto
termination
  by (relation "measure (\<lambda>lx. length (rest lx))")
     (auto intro!: rest_razor_advance_less dest: email_char_not_eof nonzero_not_eof)

declare email_tail.simps [simp del]

lemma rest_email_tail_le: "length (rest (email_tail lx)) \<le> length (rest lx)"
proof (induction lx rule: email_tail.induct)
  case (1 lx)
  show ?case
  proof (cases "is_email_char (lookahead lx) \<or> lookahead lx = ch CHR ''.'' \<or> lookahead lx = ch CHR ''-''")
    case True
    then have "length (rest (email_tail (razor_advance lx))) \<le> length (rest (razor_advance lx))"
      using "1.IH" by simp
    also have "\<dots> \<le> length (rest lx)" by (rule rest_razor_advance_le)
    finally show ?thesis using True by (subst email_tail.simps) simp
  next
    case False
    then show ?thesis by (subst email_tail.simps) simp
  qed
qed

text \<open>
  The outer loop. Its state is \<^verbatim>\<open>found_literal_at\<close>, \<^verbatim>\<open>last_was_word\<close> and the
  lexer; it returns \<^verbatim>\<open>found_literal_at\<close> and the lexer at the loop's exit.
\<close>

function text_at_loop :: "bool \<Rightarrow> bool \<Rightarrow> lexer \<Rightarrow> bool \<times> lexer" where
  "text_at_loop found_literal_at last_was_word lx =
     (if \<not> eof lx \<and> lookahead lx \<noteq> ch CHR ''<'' \<and>
         lookahead lx \<noteq> ch CHR 0x22 \<and> lookahead lx \<noteq> ch CHR 0x27
      then
        if lookahead lx = ch CHR ''@'' then
          if last_was_word then
            let lx1 = razor_advance lx in
            if is_email_char (lookahead lx1)
            then text_at_loop True False (mark_end (email_tail lx1))
            else (found_literal_at, lx1)
          else (found_literal_at, lx)
        else
          let last_was_word' = is_email_char (lookahead lx);
              lx1 = razor_advance lx;
              lx2 = (if found_literal_at then mark_end lx1 else lx1)
          in text_at_loop found_literal_at last_was_word' lx2
      else (found_literal_at, lx))"
  by pat_completeness auto
termination
proof (relation "measure (\<lambda>(f, w, lx). length (rest lx))", goal_cases)
  case 1
  show ?case by simp
next
  case (2 found_literal_at last_was_word lx lx1)
  have "length (rest (email_tail (razor_advance lx))) \<le> length (rest (razor_advance lx))"
    by (rule rest_email_tail_le)
  also have "\<dots> < length (rest lx)"
    using 2 by (intro rest_razor_advance_less) simp
  finally show ?case using 2 by simp
next
  case (3 found_literal_at last_was_word lx w lx1 lx2)
  have "length (rest (razor_advance lx)) < length (rest lx)"
    using 3 by (intro rest_razor_advance_less) simp
  then show ?case using 3 by simp
qed

declare text_at_loop.simps [simp del]

definition scan_text_with_literal_at ::
    "'cs RazorScanner \<Rightarrow> lexer \<Rightarrow> (nat \<Rightarrow> bool) \<Rightarrow> 'cs outcome" where
  "scan_text_with_literal_at scanner lx valid_symbols =
     (if valid_symbols TEXT_WITH_LITERAL_AT \<and> \<not> in_csharp_context scanner then
        (case text_at_loop False False lx of
           (found_literal_at, lx') \<Rightarrow>
             if found_literal_at then commit scanner lx' TEXT_WITH_LITERAL_AT
             else Fallthrough lx')
      else Fallthrough lx)"

section \<open>Markup text\<close>

text \<open>
  The keyword look-ahead of the \<^verbatim>\<open>HTML_TEXT_CONTENT\<close> block: up to seven identifier
  characters are copied into \<^verbatim>\<open>keyword_buf\<close>, each cast to \<^verbatim>\<open>char\<close> (its low
  eight bits), and consumed.
\<close>

function keyword_run :: "nat \<Rightarrow> byte list \<Rightarrow> lexer \<Rightarrow> byte list \<times> lexer" where
  "keyword_run keyword_len keyword_buf lx =
     (if keyword_len < 7 \<and> is_identifier_char (lookahead lx)
      then keyword_run (keyword_len + 1) (keyword_buf @ [of_int (lookahead lx)]) (razor_advance lx)
      else (keyword_buf, lx))"
  by pat_completeness auto
termination
  by (relation "measure (\<lambda>(n, b, lx). 7 - n)") auto

declare keyword_run.simps [simp del]

text \<open>
  \<^verbatim>\<open>strcmp(buf, s) == 0\<close> for a buffer that is terminated after its last written
  element: the buffer is read up to its first zero byte.
\<close>

definition strcmp_eq :: "byte list \<Rightarrow> string \<Rightarrow> bool" where
  "strcmp_eq buf s = (takeWhile (\<lambda>b. b \<noteq> 0) buf = map of_char s)"

definition is_keyword_run :: "int \<Rightarrow> byte list \<Rightarrow> lexer \<Rightarrow> bool" where
  "is_keyword_run start_char keyword_buf lx =
     (if \<not> is_identifier_char (lookahead lx) then
        if start_char = ch CHR ''e'' \<and> strcmp_eq keyword_buf ''else'' then True
        else if start_char = ch CHR ''c'' \<and> strcmp_eq keyword_buf ''catch'' then True
        else if start_char = ch CHR ''f'' \<and> strcmp_eq keyword_buf ''finally'' then True
        else False
      else False)"

lemma rest_keyword_run_le:
  "length (rest (snd (keyword_run n buf lx))) \<le> length (rest lx)"
proof (induction n buf lx rule: keyword_run.induct)
  case (1 n buf lx)
  show ?case
  proof (cases "n < 7 \<and> is_identifier_char (lookahead lx)")
    case True
    then have "length (rest (snd (keyword_run (n + 1) (buf @ [of_int (lookahead lx)]) (razor_advance lx))))
        \<le> length (rest (razor_advance lx))"
      using "1.IH" by simp
    also have "\<dots> \<le> length (rest lx)" by (rule rest_razor_advance_le)
    finally show ?thesis using True by (subst keyword_run.simps) simp
  next
    case False
    then show ?thesis by (subst keyword_run.simps) auto
  qed
qed

lemma rest_keyword_run_less:
  assumes "is_identifier_char (lookahead lx)"
  shows "length (rest (snd (keyword_run 0 [] lx))) < length (rest lx)"
proof -
  have "length (rest (snd (keyword_run (0 + 1) ([] @ [of_int (lookahead lx)]) (razor_advance lx))))
      \<le> length (rest (razor_advance lx))"
    by (rule rest_keyword_run_le)
  also have "\<dots> < length (rest lx)"
    using assms by (intro rest_razor_advance_less identifier_char_not_eof)
  finally show ?thesis using assms by (subst keyword_run.simps) simp
qed

lemma keyword_start_identifier:
  "c = ch CHR ''e'' \<or> c = ch CHR ''c'' \<or> c = ch CHR ''f'' \<Longrightarrow> is_identifier_char c"
  by (elim disjE) (simp_all add: is_identifier_char_def is_unicode_letter_def)

text \<open>
  The loop of the block. Its state is \<^verbatim>\<open>has_content\<close>, \<^verbatim>\<open>at_line_start\<close> and
  the lexer; it returns \<^verbatim>\<open>has_content\<close>, \<^verbatim>\<open>found_keyword\<close> and the lexer at the
  loop's exit.
\<close>

function html_text_loop :: "bool \<Rightarrow> bool \<Rightarrow> lexer \<Rightarrow> bool \<times> bool \<times> lexer" where
  "html_text_loop has_content at_line_start lx =
     (if \<not> eof lx then
        if lookahead lx = ch CHR ''<'' \<or> lookahead lx = ch CHR ''@'' then
          (has_content, False, lx)
        else if lookahead lx = ch CHR ''.'' \<or> lookahead lx = ch CHR ''['' \<or>
                lookahead lx = ch CHR ''('' then
          (has_content, False, lx)
        else if lookahead lx = ch CHR 0x22 \<or> lookahead lx = ch CHR 0x27 then
          (has_content, False, lx)
        else if lookahead lx = ch CHR 0x0A \<or> lookahead lx = ch CHR 0x0D then
          html_text_loop True True (mark_end (razor_advance lx))
        else if at_line_start \<and> (lookahead lx = ch CHR '' '' \<or> lookahead lx = ch CHR 0x09) then
          html_text_loop True at_line_start (mark_end (razor_advance lx))
        else if at_line_start \<and> (lookahead lx = ch CHR ''e'' \<or> lookahead lx = ch CHR ''c'' \<or>
                lookahead lx = ch CHR ''f'') then
          let lx0 = mark_end lx;
              start_char = lookahead lx0;
              run = keyword_run 0 [] lx0
          in if is_keyword_run start_char (fst run) (snd run)
             then (has_content, True, snd run)
             else html_text_loop True False (mark_end (snd run))
        else html_text_loop True False (mark_end (razor_advance lx))
      else (has_content, False, lx))"
  by pat_completeness auto
termination
proof (relation "measure (\<lambda>(h, a, lx). length (rest lx))", goal_cases)
  case 1
  show ?case by simp
next
  case (2 has_content at_line_start lx)
  from 2(1) show ?case using rest_razor_advance_less [of lx] by simp
next
  case (3 has_content at_line_start lx)
  from 3(1) show ?case using rest_razor_advance_less [of lx] by simp
next
  case (4 has_content at_line_start lx lx0 start_char run)
  from 4(7) have "is_identifier_char (lookahead lx)"
    by (intro keyword_start_identifier) simp
  then have "is_identifier_char (lookahead lx0)"
    using 4(8) by simp
  from rest_keyword_run_less [OF this] show ?case using 4(8,10) by simp
next
  case (5 has_content at_line_start lx)
  from 5(1) show ?case using rest_razor_advance_less [of lx] by simp
qed

declare html_text_loop.simps [simp del]

definition scan_html_text_content ::
    "'cs RazorScanner \<Rightarrow> lexer \<Rightarrow> (nat \<Rightarrow> bool) \<Rightarrow> 'cs outcome" where
  "scan_html_text_content scanner lx valid_symbols =
     (if valid_symbols HTML_TEXT_CONTENT \<and> \<not> in_csharp_context scanner then
        (case html_text_loop False True lx of
           (has_content, found_keyword, lx') \<Rightarrow>
             if has_content then commit scanner lx' HTML_TEXT_CONTENT
             else if found_keyword then Return False scanner lx'
             else Fallthrough lx')
      else Fallthrough lx)"

section \<open>Context-tracking tokens\<close>

definition array_push :: "'cs RazorScanner \<Rightarrow> byte \<Rightarrow> 'cs RazorScanner" where
  "array_push scanner tag = scanner\<lparr>context_stack := context_stack scanner @ [tag]\<rparr>"

definition array_pop :: "'cs RazorScanner \<Rightarrow> 'cs RazorScanner" where
  "array_pop scanner = scanner\<lparr>context_stack := butlast (context_stack scanner)\<rparr>"

definition scan_context_open ::
    "'cs RazorScanner \<Rightarrow> lexer \<Rightarrow> (nat \<Rightarrow> bool) \<Rightarrow> 'cs outcome" where
  "scan_context_open scanner lx valid_symbols =
     (if (valid_symbols CSHARP_CODE_BLOCK_START \<or> valid_symbols CSHARP_EXPLICIT_EXPR_START) \<and>
         lookahead lx = ch CHR ''@''
      then
        let lx1 = razor_advance lx in
        if valid_symbols CSHARP_CODE_BLOCK_START \<and> lookahead lx1 = ch CHR ''{'' then
          commit (array_push scanner CONTEXT_CSHARP_BRACE) (razor_advance lx1)
            CSHARP_CODE_BLOCK_START
        else if valid_symbols CSHARP_EXPLICIT_EXPR_START \<and> lookahead lx1 = ch CHR ''('' then
          commit (array_push scanner CONTEXT_CSHARP_PAREN) (razor_advance lx1)
            CSHARP_EXPLICIT_EXPR_START
        else Return False scanner lx1
      else Fallthrough lx)"

text \<open>\<^verbatim>\<open>while (iswspace(lexer->lookahead)) razor_skip(lexer);\<close>\<close>

function skip_whitespace :: "lexer \<Rightarrow> lexer" where
  "skip_whitespace lx =
     (if iswspace (lookahead lx) then skip_whitespace (razor_skip lx) else lx)"
  by pat_completeness auto
termination
  by (relation "measure (\<lambda>lx. length (rest lx))")
     (auto intro!: rest_razor_skip_less dest: iswspace_not_eof)

declare skip_whitespace.simps [simp del]

definition scan_razor_block_open ::
    "'cs RazorScanner \<Rightarrow> lexer \<Rightarrow> (nat \<Rightarrow> bool) \<Rightarrow> 'cs outcome" where
  "scan_razor_block_open scanner lx valid_symbols =
     (if valid_symbols RAZOR_BLOCK_OPEN then
        let lx1 = skip_whitespace lx in
        if lookahead lx1 = ch CHR ''{'' then
          commit (array_push scanner CONTEXT_CSHARP_BRACE) (razor_advance lx1) RAZOR_BLOCK_OPEN
        else Fallthrough lx1
      else Fallthrough lx)"

definition scan_context_close ::
    "'cs RazorScanner \<Rightarrow> lexer \<Rightarrow> (nat \<Rightarrow> bool) \<Rightarrow> 'cs outcome" where
  "scan_context_close scanner lx valid_symbols =
     (if valid_symbols CSHARP_CONTEXT_CLOSE \<and> length (context_stack scanner) > 0 then
        let lx1 = skip_whitespace lx;
            top = context_stack scanner ! (length (context_stack scanner) - 1)
        in if (top = CONTEXT_CSHARP_BRACE \<and> lookahead lx1 = ch CHR ''}'') \<or>
              (top = CONTEXT_CSHARP_PAREN \<and> lookahead lx1 = ch CHR '')'')
           then commit (array_pop scanner) (razor_advance lx1) CSHARP_CONTEXT_CLOSE
           else Fallthrough lx1
      else Fallthrough lx)"

section \<open>Comments and preprocessor lines\<close>

text \<open>
  \<^verbatim>\<open>while (!eof && lookahead != '\n' && lookahead != '\r') razor_advance(lexer);\<close>
  The loop stands in the line-comment branch and again in the preprocessor block.
\<close>

function rest_of_line :: "lexer \<Rightarrow> lexer" where
  "rest_of_line lx =
     (if \<not> eof lx \<and> lookahead lx \<noteq> ch CHR 0x0A \<and> lookahead lx \<noteq> ch CHR 0x0D
      then rest_of_line (razor_advance lx)
      else lx)"
  by pat_completeness auto
termination
  by (relation "measure (\<lambda>lx. length (rest lx))") (auto intro!: rest_razor_advance_less)

declare rest_of_line.simps [simp del]

text \<open>
  The loop of a block comment. Both of its exits (the closing \<^verbatim>\<open>*/\<close> and the end
  of input) commit the comment, so the loop only returns the lexer.
\<close>

function block_comment_loop :: "lexer \<Rightarrow> lexer" where
  "block_comment_loop lx =
     (if \<not> eof lx then
        if lookahead lx = ch CHR ''*'' then
          let lx1 = razor_advance lx in
          if lookahead lx1 = ch CHR ''/'' then razor_advance lx1
          else block_comment_loop lx1
        else block_comment_loop (razor_advance lx)
      else lx)"
  by pat_completeness auto
termination
  by (relation "measure (\<lambda>lx. length (rest lx))") (auto intro!: rest_razor_advance_less)

declare block_comment_loop.simps [simp del]

definition scan_csharp_comment ::
    "'cs RazorScanner \<Rightarrow> lexer \<Rightarrow> (nat \<Rightarrow> bool) \<Rightarrow> 'cs outcome" where
  "scan_csharp_comment scanner lx valid_symbols =
     (if valid_symbols CSHARP_COMMENT \<and> in_csharp_context scanner then
        if lookahead lx = ch CHR ''/'' then
          let lx1 = razor_advance lx in
          if lookahead lx1 = ch CHR ''/'' then
            commit scanner (rest_of_line (razor_advance lx1)) CSHARP_COMMENT
          else if lookahead lx1 = ch CHR ''*'' then
            commit scanner (block_comment_loop (razor_advance lx1)) CSHARP_COMMENT
          else Return False scanner lx1
        else Fallthrough lx
      else Fallthrough lx)"

definition scan_csharp_preproc ::
    "'cs RazorScanner \<Rightarrow> lexer \<Rightarrow> (nat \<Rightarrow> bool) \<Rightarrow> 'cs outcome" where
  "scan_csharp_preproc scanner lx valid_symbols =
     (if valid_symbols CSHARP_PREPROC \<and> in_csharp_context scanner \<and>
         lookahead lx = ch CHR ''#''
      then
        let lx1 = rest_of_line (razor_advance lx);
            lx2 = (if \<not> eof lx1 \<and> lookahead lx1 = ch CHR 0x0D then razor_advance lx1 else lx1);
            lx3 = (if \<not> eof lx2 \<and> lookahead lx2 = ch CHR 0x0A then razor_advance lx2 else lx2)
        in commit scanner lx3 CSHARP_PREPROC
      else Fallthrough lx)"

section \<open>Raw content of script, style, title and textarea\<close>

text \<open>
  The four raw-content blocks are the same code with a different tag name, first
  letter, name length and token kind; they are modelled once, with these as
  parameters, and instantiated four times below.

  The inner loop compares the lookahead with the letters of the tag name, accepting
  each letter or the letter minus 32: \<^verbatim>\<open>while (tag[i] && matches)\<close>. It returns
  \<^verbatim>\<open>matches\<close>, \<^verbatim>\<open>i\<close> and the lexer.
\<close>

function tag_match :: "int list \<Rightarrow> nat \<Rightarrow> lexer \<Rightarrow> bool \<times> nat \<times> lexer" where
  "tag_match tag i lx =
     (if i < length tag then
        let c = lookahead lx in
        if c \<noteq> tag ! i \<and> c \<noteq> tag ! i - 32 then (False, i, lx)
        else tag_match tag (i + 1) (razor_advance lx)
      else (True, i, lx))"
  by pat_completeness auto
termination
  by (relation "measure (\<lambda>(tag, i, lx). length tag - i)") auto

declare tag_match.simps [simp del]

lemma rest_tag_match_le:
  "length (rest (snd (snd (tag_match tag i lx)))) \<le> length (rest lx)"
proof (induction tag i lx rule: tag_match.induct)
  case (1 tag i lx)
  show ?case
  proof (cases "i < length tag \<and> \<not> (lookahead lx \<noteq> tag ! i \<and> lookahead lx \<noteq> tag ! i - 32)")
    case True
    then have "length (rest (snd (snd (tag_match tag (i + 1) (razor_advance lx)))))
        \<le> length (rest (razor_advance lx))"
      using "1.IH" by simp
    also have "\<dots> \<le> length (rest lx)" by (rule rest_razor_advance_le)
    finally show ?thesis using True by (subst tag_match.simps) auto
  next
    case False
    then show ?thesis by (subst tag_match.simps) auto
  qed
qed

text \<open>
  The main loop of a raw-content block, with the state \<^verbatim>\<open>has_content\<close> and the
  lexer. The tag name is \<open>tag\<close> and \<open>n\<close> is the length the source compares \<open>i\<close>
  with.
\<close>

function raw_content_loop :: "int list \<Rightarrow> nat \<Rightarrow> bool \<Rightarrow> lexer \<Rightarrow> bool \<times> lexer" where
  "raw_content_loop tag n has_content lx =
     (if \<not> eof lx then
        if lookahead lx = ch CHR ''<'' then
          let lx1 = razor_advance (mark_end lx) in
          if lookahead lx1 = ch CHR ''/'' then
            let m = tag_match tag 0 (razor_advance lx1) in
            if fst m \<and> fst (snd m) = n then (has_content, snd (snd m))
            else raw_content_loop tag n True (mark_end (snd (snd m)))
          else raw_content_loop tag n True (mark_end lx1)
        else raw_content_loop tag n True (mark_end (razor_advance lx))
      else (has_content, lx))"
  by pat_completeness auto
termination
proof (relation "measure (\<lambda>(tag, n, h, lx). length (rest lx))", goal_cases)
  case 1
  show ?case by simp
next
  case (2 tag n has_content lx lx1 m)
  have "length (rest (snd (snd (tag_match tag 0 (razor_advance lx1))))) \<le> length (rest (razor_advance lx1))"
    by (rule rest_tag_match_le)
  also have "\<dots> \<le> length (rest lx1)" by (rule rest_razor_advance_le)
  also have "\<dots> < length (rest lx)"
    using 2(1,3) rest_razor_advance_less [of "mark_end lx"] by simp
  finally show ?case using 2(5) by simp
next
  case (3 tag n has_content lx lx1)
  then show ?case using rest_razor_advance_less [of "mark_end lx"] by simp
next
  case (4 tag n has_content lx)
  then show ?case using rest_razor_advance_less [of lx] by simp
qed

declare raw_content_loop.simps [simp del]

text \<open>
  A raw-content block. \<open>lower\<close> and \<open>upper\<close> are the two first letters the opening
  check tests for; both of its branches return false.
\<close>

definition scan_raw_content ::
    "nat \<Rightarrow> int list \<Rightarrow> nat \<Rightarrow> int \<Rightarrow> int \<Rightarrow>
     'cs RazorScanner \<Rightarrow> lexer \<Rightarrow> (nat \<Rightarrow> bool) \<Rightarrow> 'cs outcome" where
  "scan_raw_content kind tag n lower upper scanner lx valid_symbols =
     (if valid_symbols kind then
        if lookahead lx = ch CHR ''<'' then
          let lx1 = razor_advance (mark_end lx) in
          if lookahead lx1 = ch CHR ''/'' then
            let lx2 = razor_advance lx1;
                c = lookahead lx2
            in if c = lower \<or> c = upper then Return False scanner lx2
               else Return False scanner lx2
          else Return False scanner lx1
        else
          (case raw_content_loop tag n False lx of
             (has_content, lx') \<Rightarrow>
               if has_content then commit scanner lx' kind
               else Return False scanner lx')
      else Fallthrough lx)"

definition scan_script_content ::
    "'cs RazorScanner \<Rightarrow> lexer \<Rightarrow> (nat \<Rightarrow> bool) \<Rightarrow> 'cs outcome" where
  "scan_script_content =
     scan_raw_content SCRIPT_CONTENT (codes ''script'') 6 (ch CHR ''s'') (ch CHR ''S'')"

definition scan_style_content ::
    "'cs RazorScanner \<Rightarrow> lexer \<Rightarrow> (nat \<Rightarrow> bool) \<Rightarrow> 'cs outcome" where
  "scan_style_content =
     scan_raw_content STYLE_CONTENT (codes ''style'') 5 (ch CHR ''s'') (ch CHR ''S'')"

definition scan_title_content ::
    "'cs RazorScanner \<Rightarrow> lexer \<Rightarrow> (nat \<Rightarrow> bool) \<Rightarrow> 'cs outcome" where
  "scan_title_content =
     scan_raw_content TITLE_CONTENT (codes ''title'') 5 (ch CHR ''t'') (ch CHR ''T'')"

definition scan_textarea_content ::
    "'cs RazorScanner \<Rightarrow> lexer \<Rightarrow> (nat \<Rightarrow> bool) \<Rightarrow> 'cs outcome" where
  "scan_textarea_content =
     scan_raw_content TEXTAREA_CONTENT (codes ''textarea'') 8 (ch CHR ''t'') (ch CHR ''T'')"

section \<open>The dispatcher\<close>

text \<open>Control reaches the next block only when the one before fell through.\<close>

definition or_else :: "'cs outcome \<Rightarrow> (lexer \<Rightarrow> 'cs outcome) \<Rightarrow> 'cs outcome" where
  "or_else r f = (case r of Return b scanner lx \<Rightarrow> Return b scanner lx | Fallthrough lx \<Rightarrow> f lx)"

text \<open>
  The blocks of \<^verbatim>\<open>tree_sitter_razor_external_scanner_scan\<close> before its last
  statement, in the order of the source.
\<close>

definition razor_families ::
    "'cs RazorScanner \<Rightarrow> lexer \<Rightarrow> (nat \<Rightarrow> bool) \<Rightarrow> 'cs outcome" where
  "razor_families scanner lx valid_symbols =
     or_else (scan_text_with_literal_at scanner lx valid_symbols) (\<lambda>lx.
     or_else (scan_html_text_content scanner lx valid_symbols) (\<lambda>lx.
     or_else (scan_context_open scanner lx valid_symbols) (\<lambda>lx.
     or_else (scan_razor_block_open scanner lx valid_symbols) (\<lambda>lx.
     or_else (scan_context_close scanner lx valid_symbols) (\<lambda>lx.
     or_else (scan_csharp_comment scanner lx valid_symbols) (\<lambda>lx.
     or_else (scan_csharp_preproc scanner lx valid_symbols) (\<lambda>lx.
     or_else (scan_script_content scanner lx valid_symbols) (\<lambda>lx.
     or_else (scan_style_content scanner lx valid_symbols) (\<lambda>lx.
     or_else (scan_title_content scanner lx valid_symbols) (\<lambda>lx.
     scan_textarea_content scanner lx valid_symbols))))))))))"

text \<open>
  Control leaves a run of consecutive blocks with the lexer \<open>l\<close> when each of them, in
  turn, falls through, the next one starting where the one before left the lexer; a
  block that returns ends the run.
\<close>

fun falls_through ::
    "('cs RazorScanner \<Rightarrow> lexer \<Rightarrow> (nat \<Rightarrow> bool) \<Rightarrow> 'cs outcome) list \<Rightarrow>
     'cs RazorScanner \<Rightarrow> lexer \<Rightarrow> (nat \<Rightarrow> bool) \<Rightarrow> lexer option" where
  "falls_through [] scanner lx valid_symbols = Some lx"
| "falls_through (block # blocks) scanner lx valid_symbols =
     (case block scanner lx valid_symbols of
        Return b scanner' lx' \<Rightarrow> None
      | Fallthrough lx' \<Rightarrow> falls_through blocks scanner lx' valid_symbols)"

text \<open>
  The scan function. Its last statement delegates to the scan function of the C\#
  scanner, which is not part of this source: it is the parameter \<open>csharp_scan\<close>, a
  function of the C\# scanner's state, the lexer and the admissible symbols that
  returns its verdict, its new state and the lexer as it leaves it. The result is the
  returned flag, the scanner and the lexer.
\<close>

definition tree_sitter_razor_external_scanner_scan ::
    "('cs \<Rightarrow> lexer \<Rightarrow> (nat \<Rightarrow> bool) \<Rightarrow> bool \<times> 'cs \<times> lexer) \<Rightarrow>
     'cs RazorScanner \<Rightarrow> lexer \<Rightarrow> (nat \<Rightarrow> bool) \<Rightarrow> bool \<times> 'cs RazorScanner \<times> lexer" where
  "tree_sitter_razor_external_scanner_scan csharp_scan scanner lx valid_symbols =
     (case razor_families scanner lx valid_symbols of
        Return b scanner' lx' \<Rightarrow> (b, scanner', lx')
      | Fallthrough lx' \<Rightarrow>
          (case csharp_scan (csharp_scanner scanner) lx' valid_symbols of
             (b, cs', lx'') \<Rightarrow> (b, scanner\<lparr>csharp_scanner := cs'\<rparr>, lx'')))"

section \<open>Serialisation\<close>

text \<open>
  \<^verbatim>\<open>tree_sitter_razor_external_scanner_serialize\<close>. The serialise function of the C\#
  scanner is the parameter \<open>csharp_serialize\<close>: the bytes it writes at the start of the
  buffer, whose number it returns. The capacity of the host's buffer,
  \<^verbatim>\<open>TREE_SITTER_SERIALIZATION_BUFFER_SIZE\<close>, is declared by the host; it is the
  parameter \<open>capacity\<close>. The sizes are \<^verbatim>\<open>unsigned\<close>, hence the arithmetic modulo
  \<open>2 ^ 32\<close>. The result is the returned length and the bytes written to the buffer.
\<close>

definition tree_sitter_razor_external_scanner_serialize ::
    "nat \<Rightarrow> ('cs \<Rightarrow> byte list) \<Rightarrow> 'cs RazorScanner \<Rightarrow> nat \<times> byte list" where
  "tree_sitter_razor_external_scanner_serialize capacity csharp_serialize scanner =
     (let blob = csharp_serialize (csharp_scanner scanner);
          csharp_size = length blob;
          razor_size = (1 + length (context_stack scanner)) mod 2 ^ 32
      in if (csharp_size + razor_size) mod 2 ^ 32 > capacity then (0, blob)
         else ((csharp_size + 1 + length (context_stack scanner)) mod 2 ^ 32,
               blob @ [of_nat (length (context_stack scanner))] @ context_stack scanner))"

text \<open>The host keeps as many bytes of the buffer as the returned length says.\<close>

definition persisted :: "nat \<times> byte list \<Rightarrow> byte list" where
  "persisted r = take (fst r) (snd r)"

text \<open>
  \<^verbatim>\<open>tree_sitter_razor_external_scanner_deserialize\<close>, on the persisted bytes \<open>buf\<close>
  (\<^verbatim>\<open>length\<close> is their number). The deserialise function of the C\# scanner is the
  parameter \<open>csharp_deserialize\<close>, applied to the C\# scanner's state and the bytes
  handed to it. The source reads \<^verbatim>\<open>buffer[1]\<close>, hands \<^verbatim>\<open>csharp_size\<close> bytes to
  the C\# scanner and copies \<^verbatim>\<open>context_count\<close> bytes without comparing these
  offsets with \<^verbatim>\<open>length\<close>; a read outside the persisted bytes has no defined
  value, and the result is then \<open>None\<close>.
\<close>

definition tree_sitter_razor_external_scanner_deserialize ::
    "('cs \<Rightarrow> byte list \<Rightarrow> 'cs) \<Rightarrow> 'cs RazorScanner \<Rightarrow> byte list \<Rightarrow> 'cs RazorScanner option" where
  "tree_sitter_razor_external_scanner_deserialize csharp_deserialize scanner buf =
     (if length buf = 0 then
        Some \<lparr>csharp_scanner = csharp_deserialize (csharp_scanner scanner) [], context_stack = []\<rparr>
      else if length buf < 2 then None
      else
        let interp_count = unat (buf ! 1);
            csharp_size = 2 + interp_count * 4
        in if length buf < csharp_size then None
           else
             let cs' = csharp_deserialize (csharp_scanner scanner) (take csharp_size buf) in
             if length buf > csharp_size then
               let context_count = unat (buf ! csharp_size) in
               if length buf < csharp_size + 1 + context_count then None
               else Some \<lparr>csharp_scanner = cs',
                          context_stack = take context_count (drop (csharp_size + 1) buf)\<rparr>
             else Some \<lparr>csharp_scanner = cs', context_stack = []\<rparr>)"

text \<open>
  Modelled from the spec: the serialise and deserialise functions of the embedded C\#
  scanner are not part of this source. By section 6 of the specification its blob is one
  byte (a quote counter), one byte giving the number \<open>N\<close> of interpolations, and
  \<open>4 * N\<close> bytes of interpolation data. \<open>csharp_state\<close> is a state with exactly this
  content; it serves to instantiate the parameters above.
\<close>

record csharp_state =
  quote_count :: byte
  interpolation_stack :: "(byte \<times> byte \<times> byte \<times> byte) list"

definition spec_csharp_serialize :: "csharp_state \<Rightarrow> byte list" where
  "spec_csharp_serialize cs =
     quote_count cs # of_nat (length (interpolation_stack cs)) #
     concat (map (\<lambda>(a, b, c, d). [a, b, c, d]) (interpolation_stack cs))"

fun spec_interpolations :: "nat \<Rightarrow> byte list \<Rightarrow> (byte \<times> byte \<times> byte \<times> byte) list" where
  "spec_interpolations (Suc n) (a # b # c # d # bs) = (a, b, c, d) # spec_interpolations n bs"
| "spec_interpolations _ _ = []"

definition spec_csharp_deserialize :: "csharp_state \<Rightarrow> byte list \<Rightarrow> csharp_state" where
  "spec_csharp_deserialize cs buf =
     (case buf of
        q # n # bs \<Rightarrow> \<lparr>quote_count = q, interpolation_stack = spec_interpolations (unat n) bs\<rparr>
      | _ \<Rightarrow> \<lparr>quote_count = 0, interpolation_stack = []\<rparr>)"

text \<open>The layout of a C\# blob that deserialisation relies on: \<open>2 + 4 * N\<close> bytes.\<close>

definition csharp_blob_layout :: "byte list \<Rightarrow> bool" where
  "csharp_blob_layout blob = (length blob \<ge> 2 \<and> length blob = 2 + unat (blob ! 1) * 4)"

section \<open>The embedded C\# scanner and the returns of a call\<close>

text \<open>
  Modelled from the spec: the token kinds of the embedded C\# scanner are numbered in a
  range disjoint from the Razor kinds (section 6), that is below
  \<^verbatim>\<open>CSHARP_TOKEN_COUNT\<close>. \<open>csharp_kinds_only\<close> says so of a C\# scan function:
  whenever it returns true, the kind it has set is one of its own.
\<close>

definition csharp_kinds_only ::
    "('cs \<Rightarrow> lexer \<Rightarrow> (nat \<Rightarrow> bool) \<Rightarrow> bool \<times> 'cs \<times> lexer) \<Rightarrow> bool" where
  "csharp_kinds_only csharp_scan =
     (\<forall>cs lx valid_symbols.
        fst (csharp_scan cs lx valid_symbols) \<longrightarrow>
        result_symbol (snd (snd (csharp_scan cs lx valid_symbols))) < CSHARP_TOKEN_COUNT)"

text \<open>
  A stand-in for the C\# scan function, to instantiate the parameter: when its kind
  \<open>0\<close> is admissible and input remains it consumes one character, commits kind
  \<open>0\<close> and counts the commit in its state; otherwise it declines.
\<close>

definition sample_csharp_scan :: "nat \<Rightarrow> lexer \<Rightarrow> (nat \<Rightarrow> bool) \<Rightarrow> bool \<times> nat \<times> lexer" where
  "sample_csharp_scan cs lx valid_symbols =
     (if valid_symbols 0 \<and> \<not> eof lx
      then (True, Suc cs, (razor_advance lx)\<lparr>result_symbol := 0\<rparr>)
      else (False, cs, lx))"

text \<open>
  The shape of every return of the Razor blocks: a decline leaves the scanner as it
  was; a commit carries the kind of its block and the block's effect on the context
  stack. It is the disjunction of the return statements of the source.
\<close>

definition return_shape :: "'cs RazorScanner \<Rightarrow> bool \<Rightarrow> 'cs RazorScanner \<Rightarrow> lexer \<Rightarrow> bool" where
  "return_shape scanner b scanner' lx' =
     ((\<not> b \<and> scanner' = scanner) \<or>
      (b \<and> scanner' = scanner \<and> context_stack scanner = [] \<and>
         (result_symbol lx' = TEXT_WITH_LITERAL_AT \<or> result_symbol lx' = HTML_TEXT_CONTENT)) \<or>
      (b \<and> scanner' = array_push scanner CONTEXT_CSHARP_BRACE \<and>
         (result_symbol lx' = CSHARP_CODE_BLOCK_START \<or> result_symbol lx' = RAZOR_BLOCK_OPEN)) \<or>
      (b \<and> scanner' = array_push scanner CONTEXT_CSHARP_PAREN \<and>
         result_symbol lx' = CSHARP_EXPLICIT_EXPR_START) \<or>
      (b \<and> scanner' = array_pop scanner \<and> context_stack scanner \<noteq> [] \<and>
         result_symbol lx' = CSHARP_CONTEXT_CLOSE) \<or>
      (b \<and> scanner' = scanner \<and> context_stack scanner \<noteq> [] \<and>
         (result_symbol lx' = CSHARP_COMMENT \<or> result_symbol lx' = CSHARP_PREPROC)) \<or>
      (b \<and> scanner' = scanner \<and>
         (result_symbol lx' = SCRIPT_CONTENT \<or> result_symbol lx' = STYLE_CONTENT \<or>
          result_symbol lx' = TITLE_CONTENT \<or> result_symbol lx' = TEXTAREA_CONTENT)))"

text \<open>
  A table of admissible symbols, to instantiate the parameter \<open>valid_symbols\<close>: the
  kinds of the list are admissible, and no other.
\<close>

definition admissible :: "nat list \<Rightarrow> nat \<Rightarrow> bool" where
  "admissible kinds k = (k \<in> set kinds)"

lemma admissible_simps [simp]:
  "admissible [] k = False"
  "admissible (x # xs) k = (k = x \<or> admissible xs k)"
  by (auto simp: admissible_def)

section \<open>Properties of the serialisation\<close>

lemma length_spec_csharp_serialize:
  "length (spec_csharp_serialize cs) = 2 + 4 * length (interpolation_stack cs)"
proof -
  have "length (concat (map (\<lambda>(a, b, c, d). [a, b, c, d]) xs)) = 4 * length xs"
    for xs :: "(byte \<times> byte \<times> byte \<times> byte) list"
    by (induction xs) auto
  then show ?thesis by (simp add: spec_csharp_serialize_def)
qed

lemma spec_csharp_blob_layout:
  "length (interpolation_stack cs) \<le> 255 \<Longrightarrow> csharp_blob_layout (spec_csharp_serialize cs)"
  unfolding csharp_blob_layout_def length_spec_csharp_serialize
  by (simp add: spec_csharp_serialize_def unat_of_nat)

lemma spec_interpolations_concat:
  "spec_interpolations (length xs) (concat (map (\<lambda>(a, b, c, d). [a, b, c, d]) xs)) = xs"
  by (induction xs) auto

lemma spec_csharp_roundtrip:
  "length (interpolation_stack cs) \<le> 255 \<Longrightarrow>
   spec_csharp_deserialize t (spec_csharp_serialize cs) = cs"
  by (simp add: spec_csharp_deserialize_def spec_csharp_serialize_def unat_of_nat
      spec_interpolations_concat)

subsection \<open>Length of the serialised state\<close>

text \<open>
  Claim C8. When the C\# blob followed by one depth byte and one byte for each element of
  the context stack would be longer than the capacity of the host's buffer, serialise
  returns the length zero; otherwise it returns exactly the size of the C\# blob plus one
  plus the depth of the stack. The hypothesis says that this total is a value of the
  \<^verbatim>\<open>unsigned\<close> type the source computes it in.
\<close>

theorem serialize_length:
  assumes "length (csharp_serialize (csharp_scanner scanner)) + 1 + length (context_stack scanner) < 2 ^ 32"
  shows "fst (tree_sitter_razor_external_scanner_serialize capacity csharp_serialize scanner) =
           (if length (csharp_serialize (csharp_scanner scanner)) + (1 + length (context_stack scanner)) > capacity
            then 0
            else length (csharp_serialize (csharp_scanner scanner)) + 1 + length (context_stack scanner))"
  using assms by (simp add: tree_sitter_razor_external_scanner_serialize_def Let_def)

text \<open>Two instances: a state of nine bytes, and one that does not fit 1024 bytes.\<close>

theorem serialize_length_witness:
  "fst (tree_sitter_razor_external_scanner_serialize 1024 spec_csharp_serialize
          \<lparr>csharp_scanner = \<lparr>quote_count = 0, interpolation_stack = [(1, 0, 0, 0)]\<rparr>,
           context_stack = [CONTEXT_CSHARP_BRACE, CONTEXT_CSHARP_PAREN]\<rparr>) = 9 \<and>
   fst (tree_sitter_razor_external_scanner_serialize 1024 spec_csharp_serialize
          \<lparr>csharp_scanner = \<lparr>quote_count = 0, interpolation_stack = replicate 255 (0, 0, 0, 0)\<rparr>,
           context_stack = [CONTEXT_CSHARP_BRACE, CONTEXT_CSHARP_PAREN]\<rparr>) = 0"
proof -
  let ?s1 = "\<lparr>csharp_scanner = \<lparr>quote_count = 0, interpolation_stack = [(1, 0, 0, 0)]\<rparr>,
           context_stack = [CONTEXT_CSHARP_BRACE, CONTEXT_CSHARP_PAREN]\<rparr>"
  let ?s2 = "\<lparr>csharp_scanner = \<lparr>quote_count = 0, interpolation_stack = replicate 255 (0, 0, 0, 0)\<rparr>,
           context_stack = [CONTEXT_CSHARP_BRACE, CONTEXT_CSHARP_PAREN]\<rparr>"
  show ?thesis
    using serialize_length [where csharp_serialize = spec_csharp_serialize and scanner = ?s1
        and capacity = 1024]
      serialize_length [where csharp_serialize = spec_csharp_serialize and scanner = ?s2
        and capacity = 1024]
    by (simp add: length_spec_csharp_serialize)
qed

subsection \<open>Serialise, then deserialise\<close>

text \<open>
  Claim C7, as amended. Take a scanner whose context stack has at most 255 elements,
  whose C\# blob has the layout of \<open>2 + 4 * N\<close> bytes with \<open>N\<close> in its second byte,
  and whose serialised state (the blob, one depth byte, the stack) fits the capacity of
  the buffer. Deserialising the persisted bytes into any scanner gives the original
  context stack, element by element, and hands the C\# scanner exactly the blob it
  wrote.
\<close>

theorem serialize_deserialize_roundtrip:
  assumes layout: "csharp_blob_layout (csharp_serialize (csharp_scanner scanner))"
    and fits: "length (csharp_serialize (csharp_scanner scanner)) + 1 + length (context_stack scanner) \<le> capacity"
    and depth: "length (context_stack scanner) \<le> 255"
    and cap: "capacity < 2 ^ 32"
  shows "tree_sitter_razor_external_scanner_deserialize csharp_deserialize target
           (persisted (tree_sitter_razor_external_scanner_serialize capacity csharp_serialize scanner)) =
         Some \<lparr>csharp_scanner =
                  csharp_deserialize (csharp_scanner target) (csharp_serialize (csharp_scanner scanner)),
               context_stack = context_stack scanner\<rparr>"
proof -
  define blob where "blob = csharp_serialize (csharp_scanner scanner)"
  define stack where "stack = context_stack scanner"
  define buf where "buf = blob @ [of_nat (length stack)] @ stack"
  have small: "length blob + 1 + length stack < 2 ^ 32"
    using fits cap by (simp add: blob_def stack_def)
  have ser: "persisted (tree_sitter_razor_external_scanner_serialize capacity csharp_serialize scanner) = buf"
    using fits small
    by (simp add: tree_sitter_razor_external_scanner_serialize_def persisted_def Let_def
        blob_def stack_def buf_def)
  have len2: "2 \<le> length blob" and len: "length blob = 2 + unat (blob ! 1) * 4"
    using layout by (simp_all add: csharp_blob_layout_def blob_def)
  have b1: "buf ! 1 = blob ! 1"
    using len2 by (simp add: buf_def nth_append)
  have csize: "2 + unat (buf ! 1) * 4 = length blob"
    using len b1 by simp
  have tk: "take (length blob) buf = blob"
    by (simp add: buf_def)
  have cnt: "unat (buf ! length blob) = length stack"
    using depth by (simp add: buf_def nth_append stack_def unat_of_nat)
  have dr: "take (length stack) (drop (length blob + 1) buf) = stack"
    by (simp add: buf_def)
  have lb: "length buf = length blob + 1 + length stack"
    by (simp add: buf_def)
  show ?thesis
    unfolding ser tree_sitter_razor_external_scanner_deserialize_def Let_def csize tk cnt dr
    using len2 by (auto simp add: lb blob_def stack_def)
qed


text \<open>
  Without the bound on the total size the round trip fails: with 255 interpolations the
  C\# blob has 1022 bytes, a stack of depth two no longer fits a buffer of 1024 bytes,
  serialise returns zero, and deserialising the empty buffer resets both the context
  stack and the C\# scanner.
\<close>

theorem serialize_deserialize_roundtrip_counterexample:
  "length [CONTEXT_CSHARP_BRACE, CONTEXT_CSHARP_PAREN] \<le> 255 \<and>
   tree_sitter_razor_external_scanner_deserialize spec_csharp_deserialize
     \<lparr>csharp_scanner = \<lparr>quote_count = 0, interpolation_stack = replicate 255 (0, 0, 0, 0)\<rparr>,
      context_stack = [CONTEXT_CSHARP_BRACE, CONTEXT_CSHARP_PAREN]\<rparr>
     (persisted (tree_sitter_razor_external_scanner_serialize 1024 spec_csharp_serialize
        \<lparr>csharp_scanner = \<lparr>quote_count = 0, interpolation_stack = replicate 255 (0, 0, 0, 0)\<rparr>,
         context_stack = [CONTEXT_CSHARP_BRACE, CONTEXT_CSHARP_PAREN]\<rparr>)) =
   Some \<lparr>csharp_scanner = \<lparr>quote_count = 0, interpolation_stack = []\<rparr>, context_stack = []\<rparr>"
  by (simp add: tree_sitter_razor_external_scanner_serialize_def Let_def persisted_def
      length_spec_csharp_serialize tree_sitter_razor_external_scanner_deserialize_def
      spec_csharp_deserialize_def)

text \<open>
  An instance of the round trip with the C\# scanner of the specification, whose own
  state is restored as well.
\<close>

theorem serialize_deserialize_roundtrip_witness:
  "tree_sitter_razor_external_scanner_deserialize spec_csharp_deserialize
     \<lparr>csharp_scanner = \<lparr>quote_count = 7, interpolation_stack = []\<rparr>, context_stack = [CONTEXT_CSHARP_PAREN]\<rparr>
     (persisted (tree_sitter_razor_external_scanner_serialize 1024 spec_csharp_serialize
        \<lparr>csharp_scanner = \<lparr>quote_count = 3, interpolation_stack = [(1, 2, 3, 4)]\<rparr>,
         context_stack = [CONTEXT_CSHARP_BRACE, CONTEXT_CSHARP_PAREN, CONTEXT_CSHARP_BRACE]\<rparr>)) =
   Some \<lparr>csharp_scanner = \<lparr>quote_count = 3, interpolation_stack = [(1, 2, 3, 4)]\<rparr>,
         context_stack = [CONTEXT_CSHARP_BRACE, CONTEXT_CSHARP_PAREN, CONTEXT_CSHARP_BRACE]\<rparr>"
proof -
  let ?s = "\<lparr>csharp_scanner = \<lparr>quote_count = 3, interpolation_stack = [(1, 2, 3, 4)]\<rparr>,
         context_stack = [CONTEXT_CSHARP_BRACE, CONTEXT_CSHARP_PAREN, CONTEXT_CSHARP_BRACE]\<rparr>"
  have layout: "csharp_blob_layout (spec_csharp_serialize (csharp_scanner ?s))"
    by (rule spec_csharp_blob_layout) simp
  show ?thesis
    using layout
      serialize_deserialize_roundtrip [where csharp_serialize = spec_csharp_serialize and scanner = ?s
        and capacity = 1024 and csharp_deserialize = spec_csharp_deserialize
        and target = "\<lparr>csharp_scanner = \<lparr>quote_count = 7, interpolation_stack = []\<rparr>,
                       context_stack = [CONTEXT_CSHARP_PAREN]\<rparr>"]
    by (simp add: length_spec_csharp_serialize spec_csharp_roundtrip)
qed

section \<open>What a call of the scan function can return\<close>

lemma text_with_literal_at_shape:
  "scan_text_with_literal_at scanner lx valid_symbols = Return b scanner' lx' \<Longrightarrow>
   return_shape scanner b scanner' lx'"
  by (auto simp: scan_text_with_literal_at_def commit_def return_shape_def in_csharp_context_def
      split: if_splits prod.splits)

lemma html_text_content_shape:
  "scan_html_text_content scanner lx valid_symbols = Return b scanner' lx' \<Longrightarrow>
   return_shape scanner b scanner' lx'"
  by (auto simp: scan_html_text_content_def commit_def return_shape_def in_csharp_context_def
      split: if_splits prod.splits)

lemma context_open_shape:
  "scan_context_open scanner lx valid_symbols = Return b scanner' lx' \<Longrightarrow>
   return_shape scanner b scanner' lx'"
  by (auto simp: scan_context_open_def commit_def return_shape_def Let_def
      split: if_splits)

lemma razor_block_open_shape:
  "scan_razor_block_open scanner lx valid_symbols = Return b scanner' lx' \<Longrightarrow>
   return_shape scanner b scanner' lx'"
  by (auto simp: scan_razor_block_open_def commit_def return_shape_def Let_def
      split: if_splits)

lemma context_close_shape:
  "scan_context_close scanner lx valid_symbols = Return b scanner' lx' \<Longrightarrow>
   return_shape scanner b scanner' lx'"
  by (auto simp: scan_context_close_def commit_def return_shape_def Let_def
      split: if_splits)

lemma csharp_comment_shape:
  "scan_csharp_comment scanner lx valid_symbols = Return b scanner' lx' \<Longrightarrow>
   return_shape scanner b scanner' lx'"
  by (auto simp: scan_csharp_comment_def commit_def return_shape_def Let_def in_csharp_context_def
      split: if_splits)

lemma csharp_preproc_shape:
  "scan_csharp_preproc scanner lx valid_symbols = Return b scanner' lx' \<Longrightarrow>
   return_shape scanner b scanner' lx'"
  by (auto simp: scan_csharp_preproc_def commit_def return_shape_def Let_def in_csharp_context_def
      split: if_splits)

lemma raw_content_shape:
  "scan_raw_content kind tag n lower upper scanner lx valid_symbols = Return b scanner' lx' \<Longrightarrow>
   kind = SCRIPT_CONTENT \<or> kind = STYLE_CONTENT \<or> kind = TITLE_CONTENT \<or> kind = TEXTAREA_CONTENT \<Longrightarrow>
   return_shape scanner b scanner' lx'"
  by (auto simp: scan_raw_content_def commit_def return_shape_def Let_def
      split: if_splits prod.splits)

lemma or_else_Return:
  assumes "or_else r f = Return b scanner' lx'"
  obtains "r = Return b scanner' lx'" | l where "r = Fallthrough l" "f l = Return b scanner' lx'"
  using assms by (auto simp: or_else_def split: outcome.splits)

lemma razor_families_shape:
  assumes "razor_families scanner lx valid_symbols = Return b scanner' lx'"
  shows "return_shape scanner b scanner' lx'"
  using assms unfolding razor_families_def
  by (elim or_else_Return)
     (auto dest: text_with_literal_at_shape html_text_content_shape context_open_shape
        razor_block_open_shape context_close_shape csharp_comment_shape csharp_preproc_shape
        raw_content_shape
        simp: scan_script_content_def scan_style_content_def scan_title_content_def
        scan_textarea_content_def)



lemma sample_csharp_kinds_only: "csharp_kinds_only sample_csharp_scan"
  by (simp add: csharp_kinds_only_def sample_csharp_scan_def CSHARP_TOKEN_COUNT_def)

lemma scan_cases:
  assumes "tree_sitter_razor_external_scanner_scan csharp_scan scanner lx valid_symbols = (b, scanner', lx')"
  obtains (razor) "razor_families scanner lx valid_symbols = Return b scanner' lx'"
  | (csharp) l cs' where "razor_families scanner lx valid_symbols = Fallthrough l"
      "csharp_scan (csharp_scanner scanner) l valid_symbols = (b, cs', lx')"
      "scanner' = scanner\<lparr>csharp_scanner := cs'\<rparr>"
  using assms
  by (auto simp: tree_sitter_razor_external_scanner_scan_def split: outcome.splits prod.splits)

subsection \<open>Effect of one call on the context stack\<close>

text \<open>
  Claim C10. One call of the scan function changes the context stack by at most one
  element: committing \<^verbatim>\<open>CSHARP_CODE_BLOCK_START\<close> or \<^verbatim>\<open>RAZOR_BLOCK_OPEN\<close> pushes the
  brace tag, committing \<^verbatim>\<open>CSHARP_EXPLICIT_EXPR_START\<close> pushes the parenthesis tag,
  committing \<^verbatim>\<open>CSHARP_CONTEXT_CLOSE\<close> pops exactly one tag, and every other outcome
  (a decline, or a commit of any other kind, those of the C\# scanner included) leaves
  the stack as it was. The hypothesis on the C\# scanner is that it commits kinds of its
  own only.
\<close>

theorem scan_stack_effect:
  assumes sub: "csharp_kinds_only csharp_scan"
    and scan: "tree_sitter_razor_external_scanner_scan csharp_scan scanner lx valid_symbols =
                 (b, scanner', lx')"
  shows "context_stack scanner' =
           (if b \<and> result_symbol lx' = CSHARP_CODE_BLOCK_START then
              context_stack scanner @ [CONTEXT_CSHARP_BRACE]
            else if b \<and> result_symbol lx' = CSHARP_EXPLICIT_EXPR_START then
              context_stack scanner @ [CONTEXT_CSHARP_PAREN]
            else if b \<and> result_symbol lx' = RAZOR_BLOCK_OPEN then
              context_stack scanner @ [CONTEXT_CSHARP_BRACE]
            else if b \<and> result_symbol lx' = CSHARP_CONTEXT_CLOSE then
              butlast (context_stack scanner)
            else context_stack scanner) \<and>
         (if b \<and> result_symbol lx' = CSHARP_CONTEXT_CLOSE
          then length (context_stack scanner) = Suc (length (context_stack scanner'))
          else True)"
  using scan
proof (cases rule: scan_cases)
  case razor
  from razor_families_shape [OF this] show ?thesis
    unfolding return_shape_def
    by (elim disjE conjE) (simp_all add: token_defs array_push_def array_pop_def)
next
  case (csharp l cs')
  from sub csharp(2) have "b \<longrightarrow> result_symbol lx' < CSHARP_TOKEN_COUNT"
    unfolding csharp_kinds_only_def by (metis fst_conv snd_conv)
  then show ?thesis using csharp(3) by (auto simp: token_defs)
qed

theorem scan_stack_effect_witness:
  "csharp_kinds_only sample_csharp_scan \<and>
   tree_sitter_razor_external_scanner_scan sample_csharp_scan
     \<lparr>csharp_scanner = 0, context_stack = [CONTEXT_CSHARP_PAREN, CONTEXT_CSHARP_BRACE]\<rparr>
     (lexer_on (codes '' } x'')) (admissible [CSHARP_CONTEXT_CLOSE]) =
   (True, \<lparr>csharp_scanner = 0, context_stack = [CONTEXT_CSHARP_PAREN]\<rparr>,
    \<lparr>rest = codes '' x'', pos = 2, tok_start = 1, mark = None,
     result_symbol = CSHARP_CONTEXT_CLOSE\<rparr>) \<and>
   [CONTEXT_CSHARP_PAREN] = butlast [CONTEXT_CSHARP_PAREN, CONTEXT_CSHARP_BRACE]"
proof -
  have run: "tree_sitter_razor_external_scanner_scan sample_csharp_scan
     \<lparr>csharp_scanner = 0, context_stack = [CONTEXT_CSHARP_PAREN, CONTEXT_CSHARP_BRACE]\<rparr>
     (lexer_on (codes '' } x'')) (admissible [CSHARP_CONTEXT_CLOSE]) =
   (True, \<lparr>csharp_scanner = 0, context_stack = [CONTEXT_CSHARP_PAREN]\<rparr>,
    \<lparr>rest = codes '' x'', pos = 2, tok_start = 1, mark = None,
     result_symbol = CSHARP_CONTEXT_CLOSE\<rparr>)"
    by code_simp
  from scan_stack_effect [OF sample_csharp_kinds_only run] run sample_csharp_kinds_only
  show ?thesis by simp
qed

subsection \<open>Comments and preprocessor lines need a C\# context\<close>

text \<open>
  Claim C1. When the context stack is empty, a call of the scan function never commits
  \<^verbatim>\<open>CSHARP_COMMENT\<close> or \<^verbatim>\<open>CSHARP_PREPROC\<close>, whatever the input and the admissible
  symbols; the two blocks are not even attempted (they fall through without touching the
  lexer). The hypothesis on the C\# scanner is that it commits kinds of its own only.
\<close>

theorem comment_preproc_need_context:
  assumes sub: "csharp_kinds_only csharp_scan"
    and empty: "context_stack scanner = []"
    and scan: "tree_sitter_razor_external_scanner_scan csharp_scan scanner lx valid_symbols =
                 (b, scanner', lx')"
  shows "\<not> (b \<and> (result_symbol lx' = CSHARP_COMMENT \<or> result_symbol lx' = CSHARP_PREPROC)) \<and>
         scan_csharp_comment scanner l valid_symbols = Fallthrough l \<and>
         scan_csharp_preproc scanner l valid_symbols = Fallthrough l"
proof -
  have "\<not> (b \<and> (result_symbol lx' = CSHARP_COMMENT \<or> result_symbol lx' = CSHARP_PREPROC))"
    using scan
  proof (cases rule: scan_cases)
    case razor
    from razor_families_shape [OF this] show ?thesis
      unfolding return_shape_def using empty
      by (elim disjE conjE) (simp_all add: token_defs)
  next
    case (csharp l cs')
    from sub csharp(2) have "b \<longrightarrow> result_symbol lx' < CSHARP_TOKEN_COUNT"
      unfolding csharp_kinds_only_def by (metis fst_conv snd_conv)
    then show ?thesis by (auto simp: token_defs)
  qed
  moreover have "scan_csharp_comment scanner l valid_symbols = Fallthrough l"
    using empty by (simp add: scan_csharp_comment_def in_csharp_context_def)
  moreover have "scan_csharp_preproc scanner l valid_symbols = Fallthrough l"
    using empty by (simp add: scan_csharp_preproc_def in_csharp_context_def)
  ultimately show ?thesis by simp
qed

theorem comment_preproc_need_context_witness:
  "csharp_kinds_only sample_csharp_scan \<and>
   tree_sitter_razor_external_scanner_scan sample_csharp_scan
     \<lparr>csharp_scanner = 0, context_stack = []\<rparr> (lexer_on (codes ''// x''))
     (admissible [CSHARP_COMMENT, CSHARP_PREPROC, 0]) =
   (True, \<lparr>csharp_scanner = 1, context_stack = []\<rparr>,
    \<lparr>rest = codes ''/ x'', pos = 1, tok_start = 0, mark = None, result_symbol = 0\<rparr>) \<and>
   0 \<noteq> CSHARP_COMMENT \<and> 0 \<noteq> CSHARP_PREPROC"
proof -
  have run: "tree_sitter_razor_external_scanner_scan sample_csharp_scan
     \<lparr>csharp_scanner = 0, context_stack = []\<rparr> (lexer_on (codes ''// x''))
     (admissible [CSHARP_COMMENT, CSHARP_PREPROC, 0]) =
   (True, \<lparr>csharp_scanner = 1, context_stack = []\<rparr>,
    \<lparr>rest = codes ''/ x'', pos = 1, tok_start = 0, mark = None, result_symbol = 0\<rparr>)"
    by code_simp
  have empty: "context_stack \<lparr>csharp_scanner = (0::nat), context_stack = []\<rparr> = []"
    by simp
  from comment_preproc_need_context [OF sample_csharp_kinds_only empty run] run
    sample_csharp_kinds_only
  show ?thesis by simp
qed

section \<open>Raw content never starts at a left angle bracket\<close>

lemma lookahead_Cons: "rest lx = c # cs \<Longrightarrow> lookahead lx = c"
  by (simp add: lookahead_def)

lemma text_at_loop_stop:
  "lookahead lx = ch CHR ''<'' \<Longrightarrow> text_at_loop found w lx = (found, lx)"
  by (subst text_at_loop.simps) simp

lemma html_text_loop_stop:
  "lookahead lx = ch CHR ''<'' \<Longrightarrow> html_text_loop h a lx = (h, False, lx)"
  by (subst html_text_loop.simps) simp

lemma skip_whitespace_none:
  "\<not> iswspace (lookahead lx) \<Longrightarrow> skip_whitespace lx = lx"
  by (subst skip_whitespace.simps) simp

lemma raw_content_at_lt:
  assumes "lookahead lx = ch CHR ''<''"
  shows "valid_symbols SCRIPT_CONTENT \<Longrightarrow>
           \<exists>lx'. scan_script_content scanner lx valid_symbols = Return False scanner lx'"
    and "valid_symbols STYLE_CONTENT \<Longrightarrow>
           \<exists>lx'. scan_style_content scanner lx valid_symbols = Return False scanner lx'"
    and "valid_symbols TITLE_CONTENT \<Longrightarrow>
           \<exists>lx'. scan_title_content scanner lx valid_symbols = Return False scanner lx'"
    and "valid_symbols TEXTAREA_CONTENT \<Longrightarrow>
           \<exists>lx'. scan_textarea_content scanner lx valid_symbols = Return False scanner lx'"
  using assms
  by (simp_all add: scan_script_content_def scan_style_content_def scan_title_content_def
      scan_textarea_content_def scan_raw_content_def Let_def)

lemma raw_content_invalid:
  "\<not> valid_symbols SCRIPT_CONTENT \<Longrightarrow>
     scan_script_content scanner lx valid_symbols = Fallthrough lx"
  "\<not> valid_symbols STYLE_CONTENT \<Longrightarrow>
     scan_style_content scanner lx valid_symbols = Fallthrough lx"
  "\<not> valid_symbols TITLE_CONTENT \<Longrightarrow>
     scan_title_content scanner lx valid_symbols = Fallthrough lx"
  "\<not> valid_symbols TEXTAREA_CONTENT \<Longrightarrow>
     scan_textarea_content scanner lx valid_symbols = Fallthrough lx"
  by (simp_all add: scan_script_content_def scan_style_content_def scan_title_content_def
      scan_textarea_content_def scan_raw_content_def)

lemma before_raw_at_lt:
  assumes "lookahead lx = ch CHR ''<''"
  shows "scan_text_with_literal_at scanner lx valid_symbols = Fallthrough lx"
    and "scan_html_text_content scanner lx valid_symbols = Fallthrough lx"
    and "scan_context_open scanner lx valid_symbols = Fallthrough lx"
    and "scan_razor_block_open scanner lx valid_symbols = Fallthrough lx"
    and "scan_context_close scanner lx valid_symbols = Fallthrough lx"
    and "scan_csharp_comment scanner lx valid_symbols = Fallthrough lx"
    and "scan_csharp_preproc scanner lx valid_symbols = Fallthrough lx"
  using assms
  by (simp_all add: scan_text_with_literal_at_def text_at_loop_stop
      scan_html_text_content_def html_text_loop_stop scan_context_open_def
      scan_razor_block_open_def scan_context_close_def skip_whitespace_none iswspace_def
      scan_csharp_comment_def scan_csharp_preproc_def)

text \<open>
  Claim C5. For each of the four raw-content kinds: whenever the kind is admissible and
  the first lookahead character is \<open><\<close>, the call of the scan function declines,
  whatever follows the \<open><\<close> (a matching closing tag or anything else), and leaves the
  scanner as it was.
\<close>

theorem raw_content_declines_at_lt:
  assumes kind: "kind = SCRIPT_CONTENT \<or> kind = STYLE_CONTENT \<or> kind = TITLE_CONTENT \<or>
      kind = TEXTAREA_CONTENT"
    and valid: "valid_symbols kind"
    and lt: "lookahead lx = ch CHR ''<''"
  shows "\<exists>lx'. tree_sitter_razor_external_scanner_scan csharp_scan scanner lx valid_symbols =
           (False, scanner, lx')"
proof -
  note before = before_raw_at_lt [OF lt, of scanner valid_symbols]
  note at_lt = raw_content_at_lt [OF lt, of valid_symbols scanner]
  have "\<exists>lx'. razor_families scanner lx valid_symbols = Return False scanner lx'"
  proof (cases "valid_symbols SCRIPT_CONTENT")
    case True
    from at_lt(1) [OF True] obtain lx' where
      "scan_script_content scanner lx valid_symbols = Return False scanner lx'" ..
    then show ?thesis
      by (simp add: razor_families_def before or_else_def)
  next
    case ns: False
    show ?thesis
    proof (cases "valid_symbols STYLE_CONTENT")
      case True
      from at_lt(2) [OF True] obtain lx' where
        "scan_style_content scanner lx valid_symbols = Return False scanner lx'" ..
      then show ?thesis
        by (simp add: razor_families_def before or_else_def raw_content_invalid ns)
    next
      case nt: False
      show ?thesis
      proof (cases "valid_symbols TITLE_CONTENT")
        case True
        from at_lt(3) [OF True] obtain lx' where
          "scan_title_content scanner lx valid_symbols = Return False scanner lx'" ..
        then show ?thesis
          by (simp add: razor_families_def before or_else_def raw_content_invalid ns nt)
      next
        case ni: False
        with ns nt kind valid have ta: "valid_symbols TEXTAREA_CONTENT" by auto
        from at_lt(4) [OF ta] obtain lx' where
          "scan_textarea_content scanner lx valid_symbols = Return False scanner lx'" ..
        then show ?thesis
          by (simp add: razor_families_def before or_else_def raw_content_invalid ns nt ni)
      qed
    qed
  qed
  then show ?thesis
    by (auto simp: tree_sitter_razor_external_scanner_scan_def)
qed


theorem raw_content_declines_at_lt_witness:
  "lookahead (lexer_on (codes ''<b>x</b></style>'')) = ch CHR ''<'' \<and>
   \<not> fst (tree_sitter_razor_external_scanner_scan sample_csharp_scan
     \<lparr>csharp_scanner = 0, context_stack = []\<rparr> (lexer_on (codes ''<b>x</b></style>''))
     (admissible [STYLE_CONTENT, 0]))"
proof -
  have lt: "lookahead (lexer_on (codes ''<b>x</b></style>'')) = ch CHR ''<''"
    by (simp add: lexer_on_def lookahead_def codes_def)
  from raw_content_declines_at_lt [where kind = STYLE_CONTENT
      and valid_symbols = "admissible [STYLE_CONTENT, 0]"
      and csharp_scan = sample_csharp_scan
      and scanner = "\<lparr>csharp_scanner = 0, context_stack = []\<rparr>", OF _ _ lt]
  show ?thesis using lt by auto
qed

section \<open>Entering and leaving a C\# context\<close>

lemma razor_advance_Cons:
  "rest lx = c # cs \<Longrightarrow> razor_advance lx = lx\<lparr>rest := cs, pos := Suc (pos lx)\<rparr>"
  by (simp add: razor_advance_def advance_def)

lemma razor_skip_Cons:
  "rest lx = c # cs \<Longrightarrow>
   razor_skip lx = lx\<lparr>rest := cs, pos := Suc (pos lx), tok_start := Suc (pos lx)\<rparr>"
  by (simp add: razor_skip_def advance_def)

lemma skip_whitespace_run:
  assumes "\<forall>c\<in>set ws. iswspace c" and "\<not> iswspace c" and "rest lx = ws @ c # r"
  shows "skip_whitespace lx =
           lx\<lparr>rest := c # r, pos := pos lx + length ws,
              tok_start := (if ws = [] then tok_start lx else pos lx + length ws)\<rparr>"
  using assms
proof (induction ws arbitrary: lx)
  case Nil
  then have "\<not> iswspace (lookahead lx)" by (simp add: lookahead_def)
  then show ?case using Nil by (simp add: skip_whitespace_none)
next
  case (Cons w ws)
  have r: "rest lx = w # (ws @ c # r)" using Cons.prems by simp
  have w: "iswspace (lookahead lx)" using Cons.prems by (simp add: lookahead_def)
  have "skip_whitespace lx = skip_whitespace (razor_skip lx)"
    using w by (subst skip_whitespace.simps) simp
  also have "\<dots> = (razor_skip lx)\<lparr>rest := c # r, pos := pos (razor_skip lx) + length ws,
      tok_start := (if ws = [] then tok_start (razor_skip lx) else pos (razor_skip lx) + length ws)\<rparr>"
    using Cons.prems by (intro Cons.IH) (simp_all add: razor_skip_Cons [OF r])
  finally show ?case by (simp add: razor_skip_Cons [OF r])
qed

lemma text_at_loop_at:
  "lookahead lx = ch CHR ''@'' \<Longrightarrow> text_at_loop found False lx = (found, lx)"
  by (subst text_at_loop.simps) simp

lemma html_text_loop_at:
  "lookahead lx = ch CHR ''@'' \<Longrightarrow> html_text_loop h a lx = (h, False, lx)"
  by (subst html_text_loop.simps) simp

lemma before_open_at:
  assumes "lookahead lx = ch CHR ''@''"
  shows "scan_text_with_literal_at scanner lx valid_symbols = Fallthrough lx"
    and "scan_html_text_content scanner lx valid_symbols = Fallthrough lx"
  using assms
  by (simp_all add: scan_text_with_literal_at_def text_at_loop_at
      scan_html_text_content_def html_text_loop_at)

lemma scan_code_block_start:
  assumes "valid_symbols CSHARP_CODE_BLOCK_START" and "rest lx = ch CHR ''@'' # ch CHR ''{'' # r"
  shows "tree_sitter_razor_external_scanner_scan csharp_scan scanner lx valid_symbols =
           (True, scanner\<lparr>context_stack := context_stack scanner @ [CONTEXT_CSHARP_BRACE]\<rparr>,
            lx\<lparr>rest := r, pos := pos lx + 2, result_symbol := CSHARP_CODE_BLOCK_START\<rparr>)"
proof -
  have at: "lookahead lx = ch CHR ''@''" using assms(2) by (simp add: lookahead_def)
  have "scan_context_open scanner lx valid_symbols =
          Return True (scanner\<lparr>context_stack := context_stack scanner @ [CONTEXT_CSHARP_BRACE]\<rparr>)
            (lx\<lparr>rest := r, pos := pos lx + 2, result_symbol := CSHARP_CODE_BLOCK_START\<rparr>)"
    using assms
    by (simp add: scan_context_open_def razor_advance_Cons lookahead_def commit_def array_push_def)
  then show ?thesis
    by (simp add: tree_sitter_razor_external_scanner_scan_def razor_families_def
        before_open_at [OF at] or_else_def)
qed

lemma scan_explicit_expr_start:
  assumes "valid_symbols CSHARP_EXPLICIT_EXPR_START" and "rest lx = ch CHR ''@'' # ch CHR ''('' # r"
  shows "tree_sitter_razor_external_scanner_scan csharp_scan scanner lx valid_symbols =
           (True, scanner\<lparr>context_stack := context_stack scanner @ [CONTEXT_CSHARP_PAREN]\<rparr>,
            lx\<lparr>rest := r, pos := pos lx + 2, result_symbol := CSHARP_EXPLICIT_EXPR_START\<rparr>)"
proof -
  have at: "lookahead lx = ch CHR ''@''" using assms(2) by (simp add: lookahead_def)
  have "scan_context_open scanner lx valid_symbols =
          Return True (scanner\<lparr>context_stack := context_stack scanner @ [CONTEXT_CSHARP_PAREN]\<rparr>)
            (lx\<lparr>rest := r, pos := pos lx + 2, result_symbol := CSHARP_EXPLICIT_EXPR_START\<rparr>)"
    using assms
    by (simp add: scan_context_open_def razor_advance_Cons lookahead_def commit_def array_push_def)
  then show ?thesis
    by (simp add: tree_sitter_razor_external_scanner_scan_def razor_families_def
        before_open_at [OF at] or_else_def)
qed

lemma skip_whitespace_stops: "\<not> iswspace (lookahead (skip_whitespace lx))"
proof (induction lx rule: skip_whitespace.induct)
  case (1 lx)
  show ?case
  proof (cases "iswspace (lookahead lx)")
    case True
    then have "skip_whitespace lx = skip_whitespace (razor_skip lx)"
      by (subst skip_whitespace.simps) simp
    then show ?thesis using "1.IH" [OF True] by simp
  next
    case False
    then show ?thesis by (simp add: skip_whitespace_none)
  qed
qed

lemma skip_whitespace_idem: "skip_whitespace (skip_whitespace lx) = skip_whitespace lx"
  by (rule skip_whitespace_none) (rule skip_whitespace_stops)

lemma in_context_skips_markup:
  assumes "context_stack scanner \<noteq> []"
  shows "scan_text_with_literal_at scanner lx valid_symbols = Fallthrough lx"
    and "scan_html_text_content scanner lx valid_symbols = Fallthrough lx"
  using assms
  by (simp_all add: scan_text_with_literal_at_def scan_html_text_content_def in_csharp_context_def)

lemma context_open_Fallthrough:
  "scan_context_open scanner lx valid_symbols = Fallthrough l \<Longrightarrow> l = lx"
  by (auto simp: scan_context_open_def Let_def commit_def split: if_splits)

lemma razor_block_open_Fallthrough:
  "scan_razor_block_open scanner lx valid_symbols = Fallthrough l \<Longrightarrow>
   l = lx \<or> l = skip_whitespace lx"
  by (auto simp: scan_razor_block_open_def Let_def commit_def split: if_splits)

lemma context_close_Return:
  assumes "scan_context_close scanner l valid_symbols = Return b scanner' lx'"
  shows "valid_symbols CSHARP_CONTEXT_CLOSE \<and> context_stack scanner \<noteq> [] \<and> b \<and>
         scanner' = array_pop scanner \<and> result_symbol lx' = CSHARP_CONTEXT_CLOSE \<and>
         ((last (context_stack scanner) = CONTEXT_CSHARP_BRACE \<and>
             lookahead (skip_whitespace l) = ch CHR ''}'') \<or>
          (last (context_stack scanner) = CONTEXT_CSHARP_PAREN \<and>
             lookahead (skip_whitespace l) = ch CHR '')''))"
  using assms
  by (auto simp: scan_context_close_def Let_def commit_def last_conv_nth split: if_splits)

lemma no_pop_elsewhere:
  assumes "return_shape scanner b scanner' lx'"
    and "length (context_stack scanner') < length (context_stack scanner)"
  shows "b \<and> scanner' = array_pop scanner \<and> result_symbol lx' = CSHARP_CONTEXT_CLOSE"
  using assms unfolding return_shape_def
  by (elim disjE conjE) (simp_all add: array_push_def)

lemma pop_only_on_match:
  assumes ret: "razor_families scanner lx valid_symbols = Return b scanner' lx'"
    and shorter: "length (context_stack scanner') < length (context_stack scanner)"
  shows "valid_symbols CSHARP_CONTEXT_CLOSE \<and> context_stack scanner \<noteq> [] \<and> b \<and>
         scanner' = array_pop scanner \<and> result_symbol lx' = CSHARP_CONTEXT_CLOSE \<and>
         ((last (context_stack scanner) = CONTEXT_CSHARP_BRACE \<and>
             lookahead (skip_whitespace lx) = ch CHR ''}'') \<or>
          (last (context_stack scanner) = CONTEXT_CSHARP_PAREN \<and>
             lookahead (skip_whitespace lx) = ch CHR '')''))"
proof -
  from shorter have ne: "context_stack scanner \<noteq> []" by auto
  have sym: "result_symbol lx' = CSHARP_CONTEXT_CLOSE"
    using no_pop_elsewhere [OF razor_families_shape [OF ret] shorter] by simp
  from ret show ?thesis
    unfolding razor_families_def in_context_skips_markup [OF ne] or_else_def [of "Fallthrough _"]
      outcome.case
  proof (elim or_else_Return, goal_cases)
    case 1
    then show ?case
      using sym shorter by (auto simp: array_push_def scan_context_open_def Let_def commit_def token_defs split: if_splits)
  next
    case (2 l)
    then show ?case
      using sym shorter by (auto simp: array_push_def scan_razor_block_open_def Let_def commit_def token_defs split: if_splits)
  next
    case (3 l1 l2)
    from context_open_Fallthrough [OF 3(1)] razor_block_open_Fallthrough [OF 3(2)]
    have "skip_whitespace l2 = skip_whitespace lx"
      by (auto simp: skip_whitespace_idem)
    with context_close_Return [OF 3(3)] show ?case by simp
  next
    case (4 l1 l2 l3)
    then show ?case
      using sym shorter by (auto simp: array_push_def scan_csharp_comment_def Let_def commit_def token_defs split: if_splits)
  next
    case (5 l1 l2 l3 l4)
    then show ?case
      using sym shorter by (auto simp: array_push_def scan_csharp_preproc_def Let_def commit_def token_defs split: if_splits)
  next
    case (6 l1 l2 l3 l4 l5)
    then show ?case
      using sym shorter by (auto simp: array_push_def scan_script_content_def scan_raw_content_def Let_def commit_def
          token_defs split: if_splits prod.splits)
  next
    case (7 l1 l2 l3 l4 l5 l6)
    then show ?case
      using sym shorter by (auto simp: array_push_def scan_style_content_def scan_raw_content_def Let_def commit_def
          token_defs split: if_splits prod.splits)
  next
    case (8 l1 l2 l3 l4 l5 l6 l7)
    then show ?case
      using sym shorter by (auto simp: array_push_def scan_title_content_def scan_raw_content_def Let_def commit_def
          token_defs split: if_splits prod.splits)
  next
    case (9 l1 l2 l3 l4 l5 l6 l7 l8)
    then show ?case
      using sym shorter by (auto simp: array_push_def scan_textarea_content_def scan_raw_content_def Let_def commit_def
          token_defs split: if_splits prod.splits)
  qed
qed


lemma lookahead_before_skip:
  assumes "lookahead (skip_whitespace lx) = c" and "\<not> iswspace d" and "d \<noteq> c"
  shows "lookahead lx \<noteq> d"
proof (cases "iswspace (lookahead lx)")
  case True
  with assms(2) show ?thesis by auto
next
  case False
  with assms(1,3) show ?thesis by (simp add: skip_whitespace_none)
qed

lemma up_to_close:
  assumes ne: "context_stack scanner \<noteq> []"
    and c: "lookahead (skip_whitespace lx) = ch CHR ''}'' \<or> lookahead (skip_whitespace lx) = ch CHR '')''"
  shows "scan_text_with_literal_at scanner lx valid_symbols = Fallthrough lx"
    and "scan_html_text_content scanner lx valid_symbols = Fallthrough lx"
    and "scan_context_open scanner lx valid_symbols = Fallthrough lx"
    and "scan_razor_block_open scanner lx valid_symbols =
           Fallthrough (if valid_symbols RAZOR_BLOCK_OPEN then skip_whitespace lx else lx)"
proof -
  show "scan_text_with_literal_at scanner lx valid_symbols = Fallthrough lx"
    and "scan_html_text_content scanner lx valid_symbols = Fallthrough lx"
    by (rule in_context_skips_markup [OF ne])+
  have "lookahead lx \<noteq> ch CHR ''@''"
    using c by (elim disjE) (erule lookahead_before_skip; simp add: iswspace_def)+
  then show "scan_context_open scanner lx valid_symbols = Fallthrough lx"
    by (simp add: scan_context_open_def)
  show "scan_razor_block_open scanner lx valid_symbols =
           Fallthrough (if valid_symbols RAZOR_BLOCK_OPEN then skip_whitespace lx else lx)"
    using c by (auto simp: scan_razor_block_open_def Let_def)
qed

lemma context_close_match:
  assumes valid: "valid_symbols CSHARP_CONTEXT_CLOSE"
    and ne: "context_stack scanner \<noteq> []"
    and l: "l = lx \<or> l = skip_whitespace lx"
    and match: "(last (context_stack scanner) = CONTEXT_CSHARP_BRACE \<and>
                   lookahead (skip_whitespace lx) = ch CHR ''}'') \<or>
                (last (context_stack scanner) = CONTEXT_CSHARP_PAREN \<and>
                   lookahead (skip_whitespace lx) = ch CHR '')'')"
  shows "scan_context_close scanner l valid_symbols =
           Return True (array_pop scanner)
             ((razor_advance (skip_whitespace lx))\<lparr>result_symbol := CSHARP_CONTEXT_CLOSE\<rparr>)"
proof -
  have "skip_whitespace l = skip_whitespace lx"
    using l by (auto simp: skip_whitespace_idem)
  then show ?thesis
    using valid ne match
    by (auto simp: scan_context_close_def Let_def commit_def last_conv_nth)
qed

lemma context_close_mismatch:
  assumes ne: "context_stack scanner \<noteq> []"
    and l: "l = lx \<or> l = skip_whitespace lx"
    and mismatch: "\<not> ((last (context_stack scanner) = CONTEXT_CSHARP_BRACE \<and>
                   lookahead (skip_whitespace lx) = ch CHR ''}'') \<or>
                (last (context_stack scanner) = CONTEXT_CSHARP_PAREN \<and>
                   lookahead (skip_whitespace lx) = ch CHR '')''))"
  shows "scan_context_close scanner l valid_symbols =
           Fallthrough (if valid_symbols CSHARP_CONTEXT_CLOSE then skip_whitespace lx else l)"
proof -
  have "skip_whitespace l = skip_whitespace lx"
    using l by (auto simp: skip_whitespace_idem)
  then show ?thesis
    using ne mismatch
    by (auto simp: scan_context_close_def Let_def commit_def last_conv_nth)
qed

lemma scan_closes:
  assumes valid: "valid_symbols CSHARP_CONTEXT_CLOSE"
    and ne: "context_stack scanner \<noteq> []"
    and ws: "\<forall>c\<in>set ws. iswspace c"
    and r: "rest lx = ws @ c # r"
    and match: "(last (context_stack scanner) = CONTEXT_CSHARP_BRACE \<and> c = ch CHR ''}'') \<or>
                (last (context_stack scanner) = CONTEXT_CSHARP_PAREN \<and> c = ch CHR '')'')"
  shows "tree_sitter_razor_external_scanner_scan csharp_scan scanner lx valid_symbols =
           (True, scanner\<lparr>context_stack := butlast (context_stack scanner)\<rparr>,
            lx\<lparr>rest := r, pos := pos lx + length ws + 1,
               tok_start := (if ws = [] then tok_start lx else pos lx + length ws),
               result_symbol := CSHARP_CONTEXT_CLOSE\<rparr>)"
proof -
  have nws: "\<not> iswspace c" using match by (auto simp: iswspace_def)
  note skip = skip_whitespace_run [OF ws nws r]
  have la: "lookahead (skip_whitespace lx) = c"
    by (simp add: skip lookahead_def)
  have c: "lookahead (skip_whitespace lx) = ch CHR ''}'' \<or> lookahead (skip_whitespace lx) = ch CHR '')''"
    using match la by auto
  have m: "(last (context_stack scanner) = CONTEXT_CSHARP_BRACE \<and>
                   lookahead (skip_whitespace lx) = ch CHR ''}'') \<or>
                (last (context_stack scanner) = CONTEXT_CSHARP_PAREN \<and>
                   lookahead (skip_whitespace lx) = ch CHR '')'')"
    using match la by simp
  have adv: "razor_advance (skip_whitespace lx) =
      lx\<lparr>rest := r, pos := pos lx + length ws + 1,
         tok_start := (if ws = [] then tok_start lx else pos lx + length ws)\<rparr>"
    by (simp add: skip razor_advance_def advance_def)
  have "razor_families scanner lx valid_symbols =
          Return True (array_pop scanner)
            ((razor_advance (skip_whitespace lx))\<lparr>result_symbol := CSHARP_CONTEXT_CLOSE\<rparr>)"
  proof -
    have cl: "scan_context_close scanner l valid_symbols =
          Return True (array_pop scanner)
            ((razor_advance (skip_whitespace lx))\<lparr>result_symbol := CSHARP_CONTEXT_CLOSE\<rparr>)"
      if "l = lx \<or> l = skip_whitespace lx" for l
      using context_close_match [where valid_symbols = valid_symbols and scanner = scanner
          and lx = lx and l = l] valid ne that m by blast
    show ?thesis
      by (simp add: razor_families_def up_to_close [OF ne c] or_else_def cl)
  qed
  then show ?thesis
    by (simp add: tree_sitter_razor_external_scanner_scan_def adv array_pop_def)
qed


text \<open>
  Claim C2. When \<^verbatim>\<open>CSHARP_CODE_BLOCK_START\<close> is admissible, scanning input that begins
  with an at-sign and an opening brace commits that kind and pushes exactly one brace tag
  onto the context stack. Afterwards, with the stack at depth one and
  \<^verbatim>\<open>CSHARP_CONTEXT_CLOSE\<close> admissible, scanning a \<open>}\<close>, possibly preceded by
  whitespace \<open>ws\<close>, commits \<^verbatim>\<open>CSHARP_CONTEXT_CLOSE\<close> and leaves the stack empty; the
  token is the \<open>}\<close> alone, the whitespace being skipped. The same holds for an at-sign
  and an opening parenthesis with \<^verbatim>\<open>CSHARP_EXPLICIT_EXPR_START\<close>, the parenthesis tag
  and \<open>)\<close>.
\<close>

theorem context_open_then_close:
  assumes ws: "\<forall>c\<in>set ws. iswspace c"
  shows "(valid_open CSHARP_CODE_BLOCK_START \<and> rest lx_open = ch CHR ''@'' # ch CHR ''{'' # r_open \<longrightarrow>
            tree_sitter_razor_external_scanner_scan csharp_scan scanner lx_open valid_open =
              (True, scanner\<lparr>context_stack := context_stack scanner @ [CONTEXT_CSHARP_BRACE]\<rparr>,
               lx_open\<lparr>rest := r_open, pos := pos lx_open + 2, result_symbol := CSHARP_CODE_BLOCK_START\<rparr>)) \<and>
         (valid_close CSHARP_CONTEXT_CLOSE \<and> rest lx_close = ws @ ch CHR ''}'' # r_close \<longrightarrow>
            tree_sitter_razor_external_scanner_scan csharp_scan
                (scanner\<lparr>context_stack := [CONTEXT_CSHARP_BRACE]\<rparr>) lx_close valid_close =
              (True, scanner\<lparr>context_stack := []\<rparr>,
               lx_close\<lparr>rest := r_close, pos := pos lx_close + length ws + 1,
                   tok_start := (if ws = [] then tok_start lx_close else pos lx_close + length ws),
                   result_symbol := CSHARP_CONTEXT_CLOSE\<rparr>)) \<and>
         (valid_open CSHARP_EXPLICIT_EXPR_START \<and> rest lx_open = ch CHR ''@'' # ch CHR ''('' # r_open \<longrightarrow>
            tree_sitter_razor_external_scanner_scan csharp_scan scanner lx_open valid_open =
              (True, scanner\<lparr>context_stack := context_stack scanner @ [CONTEXT_CSHARP_PAREN]\<rparr>,
               lx_open\<lparr>rest := r_open, pos := pos lx_open + 2, result_symbol := CSHARP_EXPLICIT_EXPR_START\<rparr>)) \<and>
         (valid_close CSHARP_CONTEXT_CLOSE \<and> rest lx_close = ws @ ch CHR '')'' # r_close \<longrightarrow>
            tree_sitter_razor_external_scanner_scan csharp_scan
                (scanner\<lparr>context_stack := [CONTEXT_CSHARP_PAREN]\<rparr>) lx_close valid_close =
              (True, scanner\<lparr>context_stack := []\<rparr>,
               lx_close\<lparr>rest := r_close, pos := pos lx_close + length ws + 1,
                   tok_start := (if ws = [] then tok_start lx_close else pos lx_close + length ws),
                   result_symbol := CSHARP_CONTEXT_CLOSE\<rparr>))"
proof (intro conjI impI; elim conjE)
  assume "valid_open CSHARP_CODE_BLOCK_START" "rest lx_open = ch CHR ''@'' # ch CHR ''{'' # r_open"
  then show "tree_sitter_razor_external_scanner_scan csharp_scan scanner lx_open valid_open =
              (True, scanner\<lparr>context_stack := context_stack scanner @ [CONTEXT_CSHARP_BRACE]\<rparr>,
               lx_open\<lparr>rest := r_open, pos := pos lx_open + 2, result_symbol := CSHARP_CODE_BLOCK_START\<rparr>)"
    by (rule scan_code_block_start [where valid_symbols = valid_open])
next
  assume "valid_open CSHARP_EXPLICIT_EXPR_START" "rest lx_open = ch CHR ''@'' # ch CHR ''('' # r_open"
  then show "tree_sitter_razor_external_scanner_scan csharp_scan scanner lx_open valid_open =
              (True, scanner\<lparr>context_stack := context_stack scanner @ [CONTEXT_CSHARP_PAREN]\<rparr>,
               lx_open\<lparr>rest := r_open, pos := pos lx_open + 2, result_symbol := CSHARP_EXPLICIT_EXPR_START\<rparr>)"
    by (rule scan_explicit_expr_start [where valid_symbols = valid_open])
next
  assume v: "valid_close CSHARP_CONTEXT_CLOSE" and r: "rest lx_close = ws @ ch CHR ''}'' # r_close"
  show "tree_sitter_razor_external_scanner_scan csharp_scan
                (scanner\<lparr>context_stack := [CONTEXT_CSHARP_BRACE]\<rparr>) lx_close valid_close =
              (True, scanner\<lparr>context_stack := []\<rparr>,
               lx_close\<lparr>rest := r_close, pos := pos lx_close + length ws + 1,
                   tok_start := (if ws = [] then tok_start lx_close else pos lx_close + length ws),
                   result_symbol := CSHARP_CONTEXT_CLOSE\<rparr>)"
    using scan_closes [where valid_symbols = valid_close and ws = ws and lx = lx_close and r = r_close
        and c = "ch CHR ''}''" and scanner = "scanner\<lparr>context_stack := [CONTEXT_CSHARP_BRACE]\<rparr>"
        and csharp_scan = csharp_scan] v ws r
    by simp
next
  assume v: "valid_close CSHARP_CONTEXT_CLOSE" and r: "rest lx_close = ws @ ch CHR '')'' # r_close"
  show "tree_sitter_razor_external_scanner_scan csharp_scan
                (scanner\<lparr>context_stack := [CONTEXT_CSHARP_PAREN]\<rparr>) lx_close valid_close =
              (True, scanner\<lparr>context_stack := []\<rparr>,
               lx_close\<lparr>rest := r_close, pos := pos lx_close + length ws + 1,
                   tok_start := (if ws = [] then tok_start lx_close else pos lx_close + length ws),
                   result_symbol := CSHARP_CONTEXT_CLOSE\<rparr>)"
    using scan_closes [where valid_symbols = valid_close and ws = ws and lx = lx_close and r = r_close
        and c = "ch CHR '')''" and scanner = "scanner\<lparr>context_stack := [CONTEXT_CSHARP_PAREN]\<rparr>"
        and csharp_scan = csharp_scan] v ws r
    by simp
qed

text \<open>
  Two instances, a code block around \<open>int x = 1;\<close> and an explicit expression around
  \<open>a + b\<close>: the opening token at the start, and the closing token where the C\# tokens
  in between have left the lexer.
\<close>

theorem context_open_then_close_witness:
  "iswspace 32 \<and>
   tree_sitter_razor_external_scanner_scan sample_csharp_scan
     \<lparr>csharp_scanner = 0, context_stack = []\<rparr>
     (lexer_on (codes (''@'' @ ''{ int x = 1; }''))) (admissible [CSHARP_CODE_BLOCK_START]) =
   (True, \<lparr>csharp_scanner = 0, context_stack = [CONTEXT_CSHARP_BRACE]\<rparr>,
    \<lparr>rest = codes '' int x = 1; }'', pos = 2, tok_start = 0, mark = None,
     result_symbol = CSHARP_CODE_BLOCK_START\<rparr>) \<and>
   tree_sitter_razor_external_scanner_scan sample_csharp_scan
     \<lparr>csharp_scanner = 0, context_stack = [CONTEXT_CSHARP_BRACE]\<rparr>
     \<lparr>rest = codes '' }'', pos = 13, tok_start = 13, mark = None, result_symbol = 0\<rparr>
     (admissible [CSHARP_CONTEXT_CLOSE]) =
   (True, \<lparr>csharp_scanner = 0, context_stack = []\<rparr>,
    \<lparr>rest = [], pos = 15, tok_start = 14, mark = None, result_symbol = CSHARP_CONTEXT_CLOSE\<rparr>) \<and>
   tree_sitter_razor_external_scanner_scan sample_csharp_scan
     \<lparr>csharp_scanner = 0, context_stack = []\<rparr>
     (lexer_on (codes (''@'' @ ''(a + b)''))) (admissible [CSHARP_EXPLICIT_EXPR_START]) =
   (True, \<lparr>csharp_scanner = 0, context_stack = [CONTEXT_CSHARP_PAREN]\<rparr>,
    \<lparr>rest = codes ''a + b)'', pos = 2, tok_start = 0, mark = None,
     result_symbol = CSHARP_EXPLICIT_EXPR_START\<rparr>) \<and>
   tree_sitter_razor_external_scanner_scan sample_csharp_scan
     \<lparr>csharp_scanner = 0, context_stack = [CONTEXT_CSHARP_PAREN]\<rparr>
     \<lparr>rest = codes '')'', pos = 7, tok_start = 7, mark = None, result_symbol = 0\<rparr>
     (admissible [CSHARP_CONTEXT_CLOSE]) =
   (True, \<lparr>csharp_scanner = 0, context_stack = []\<rparr>,
    \<lparr>rest = [], pos = 8, tok_start = 7, mark = None, result_symbol = CSHARP_CONTEXT_CLOSE\<rparr>)"
  using context_open_then_close [where ws = "[]" and csharp_scan = sample_csharp_scan
      and scanner = "\<lparr>csharp_scanner = 0, context_stack = []\<rparr>"
      and valid_open = "admissible [CSHARP_EXPLICIT_EXPR_START]"
      and lx_open = "lexer_on (codes (''@'' @ ''(a + b)''))" and r_open = "codes ''a + b)''"
      and valid_close = "admissible [CSHARP_CONTEXT_CLOSE]"
      and lx_close = "\<lparr>rest = codes '')'', pos = 7, tok_start = 7, mark = None, result_symbol = 0\<rparr>"
      and r_close = "[]"]
    context_open_then_close [where ws = "[32]" and csharp_scan = sample_csharp_scan
      and scanner = "\<lparr>csharp_scanner = 0, context_stack = []\<rparr>"
      and valid_open = "admissible [CSHARP_CODE_BLOCK_START]"
      and lx_open = "lexer_on (codes (''@'' @ ''{ int x = 1; }''))" and r_open = "codes '' int x = 1; }''"
      and valid_close = "admissible [CSHARP_CONTEXT_CLOSE]"
      and lx_close = "\<lparr>rest = codes '' }'', pos = 13, tok_start = 13, mark = None, result_symbol = 0\<rparr>"
      and r_close = "[]"]
  by (simp add: iswspace_def lexer_on_def codes_def)

section \<open>Closing a context needs the matching closer\<close>

lemma raw_content_Return:
  assumes "scan_raw_content kind tag n lower upper scanner l valid_symbols = Return b scanner' lx'"
  shows "scanner' = scanner \<and> valid_symbols kind \<and> (b \<longrightarrow> result_symbol lx' = kind)"
  using assms
  by (auto simp: scan_raw_content_def commit_def Let_def split: if_splits prod.splits)

lemma raw_tail_Return:
  assumes "or_else (scan_script_content scanner l valid_symbols) (\<lambda>lx.
           or_else (scan_style_content scanner lx valid_symbols) (\<lambda>lx.
           or_else (scan_title_content scanner lx valid_symbols) (\<lambda>lx.
           scan_textarea_content scanner lx valid_symbols))) = Return b scanner' lx'"
  shows "scanner' = scanner \<and>
         (valid_symbols SCRIPT_CONTENT \<or> valid_symbols STYLE_CONTENT \<or>
          valid_symbols TITLE_CONTENT \<or> valid_symbols TEXTAREA_CONTENT) \<and>
         (b \<longrightarrow> result_symbol lx' = SCRIPT_CONTENT \<or> result_symbol lx' = STYLE_CONTENT \<or>
                result_symbol lx' = TITLE_CONTENT \<or> result_symbol lx' = TEXTAREA_CONTENT)"
  using assms
  unfolding scan_script_content_def scan_style_content_def scan_title_content_def
    scan_textarea_content_def
  by (elim or_else_Return) (auto dest!: raw_content_Return)

lemma raw_tail_invalid:
  assumes "\<not> valid_symbols SCRIPT_CONTENT" "\<not> valid_symbols STYLE_CONTENT"
    "\<not> valid_symbols TITLE_CONTENT" "\<not> valid_symbols TEXTAREA_CONTENT"
  shows "or_else (scan_script_content scanner l valid_symbols) (\<lambda>lx.
         or_else (scan_style_content scanner lx valid_symbols) (\<lambda>lx.
         or_else (scan_title_content scanner lx valid_symbols) (\<lambda>lx.
         scan_textarea_content scanner lx valid_symbols))) = Fallthrough l"
  using assms by (simp add: raw_content_invalid or_else_def)

lemma mismatch_tail:
  assumes ne: "context_stack scanner \<noteq> []"
    and c: "lookahead (skip_whitespace lx) = ch CHR ''}'' \<or> lookahead (skip_whitespace lx) = ch CHR '')''"
    and mismatch: "\<not> ((last (context_stack scanner) = CONTEXT_CSHARP_BRACE \<and>
                   lookahead (skip_whitespace lx) = ch CHR ''}'') \<or>
                (last (context_stack scanner) = CONTEXT_CSHARP_PAREN \<and>
                   lookahead (skip_whitespace lx) = ch CHR '')''))"
  shows "razor_families scanner lx valid_symbols =
           or_else (scan_script_content scanner
             (if valid_symbols RAZOR_BLOCK_OPEN \<or> valid_symbols CSHARP_CONTEXT_CLOSE
              then skip_whitespace lx else lx) valid_symbols) (\<lambda>lx.
           or_else (scan_style_content scanner lx valid_symbols) (\<lambda>lx.
           or_else (scan_title_content scanner lx valid_symbols) (\<lambda>lx.
           scan_textarea_content scanner lx valid_symbols)))"
proof -
  define l where "l = (if valid_symbols RAZOR_BLOCK_OPEN \<or> valid_symbols CSHARP_CONTEXT_CLOSE
              then skip_whitespace lx else lx)"
  have close: "scan_context_close scanner
      (if valid_symbols RAZOR_BLOCK_OPEN then skip_whitespace lx else lx) valid_symbols = Fallthrough l"
    using context_close_mismatch [where scanner = scanner and lx = lx
        and valid_symbols = valid_symbols
        and l = "if valid_symbols RAZOR_BLOCK_OPEN then skip_whitespace lx else lx"]
      ne mismatch
    by (auto simp: l_def)
  have slash: "lookahead lx \<noteq> ch CHR ''/''"
    using c lookahead_before_skip [where d = "ch CHR ''/''" and lx = lx]
    by (auto simp: iswspace_def)
  have hash: "lookahead lx \<noteq> ch CHR ''#''"
    using c lookahead_before_skip [where d = "ch CHR ''#''" and lx = lx]
    by (auto simp: iswspace_def)
  have la: "lookahead l \<noteq> ch CHR ''/''" "lookahead l \<noteq> ch CHR ''#''"
    using c slash hash by (auto simp: l_def)
  have comment: "scan_csharp_comment scanner l valid_symbols = Fallthrough l"
    using la by (simp add: scan_csharp_comment_def)
  have preproc: "scan_csharp_preproc scanner l valid_symbols = Fallthrough l"
    using la by (simp add: scan_csharp_preproc_def)
  show ?thesis
    unfolding l_def [symmetric]
    by (simp add: razor_families_def up_to_close [OF ne c] or_else_def close comment preproc)
qed

text \<open>
  Claim C3, as amended. The context stack gets shorter only by a committed
  \<^verbatim>\<open>CSHARP_CONTEXT_CLOSE\<close>, which needs a non-empty stack and, as the next character
  after whitespace, the closer of the tag on top (\<open>}\<close> for the brace tag, \<open>)\<close> for the
  parenthesis tag). When that character is a closer that does not match the tag on top,
  the call does not commit \<^verbatim>\<open>CSHARP_CONTEXT_CLOSE\<close> and leaves the stack unchanged;
  the context-tracking, comment and preprocessor blocks consume nothing (whitespace is
  only skipped), so the closer is left to the blocks that follow: when none of the
  raw-content kinds is admissible, the Razor blocks fall through to the C\# scanner
  with the lexer in front of the closer. The hypothesis on the C\# scanner is that it
  commits kinds of its own only.
\<close>

theorem context_close_needs_match:
  assumes sub: "csharp_kinds_only csharp_scan"
    and scan: "tree_sitter_razor_external_scanner_scan csharp_scan scanner lx valid_symbols =
                 (b, scanner', lx')"
  shows "(length (context_stack scanner') < length (context_stack scanner) \<longrightarrow>
            b \<and> result_symbol lx' = CSHARP_CONTEXT_CLOSE \<and>
            valid_symbols CSHARP_CONTEXT_CLOSE \<and> length (context_stack scanner) > 0 \<and>
            context_stack scanner' = butlast (context_stack scanner) \<and>
            ((last (context_stack scanner) = CONTEXT_CSHARP_BRACE \<and>
                lookahead (skip_whitespace lx) = ch CHR ''}'') \<or>
             (last (context_stack scanner) = CONTEXT_CSHARP_PAREN \<and>
                lookahead (skip_whitespace lx) = ch CHR '')''))) \<and>
         (length (context_stack scanner) > 0 \<and>
          (lookahead (skip_whitespace lx) = ch CHR ''}'' \<or>
           lookahead (skip_whitespace lx) = ch CHR '')'') \<and>
          \<not> ((last (context_stack scanner) = CONTEXT_CSHARP_BRACE \<and>
                lookahead (skip_whitespace lx) = ch CHR ''}'') \<or>
             (last (context_stack scanner) = CONTEXT_CSHARP_PAREN \<and>
                lookahead (skip_whitespace lx) = ch CHR '')'')) \<longrightarrow>
            context_stack scanner' = context_stack scanner \<and>
            \<not> (b \<and> result_symbol lx' = CSHARP_CONTEXT_CLOSE) \<and>
            (\<not> valid_symbols SCRIPT_CONTENT \<and> \<not> valid_symbols STYLE_CONTENT \<and>
             \<not> valid_symbols TITLE_CONTENT \<and> \<not> valid_symbols TEXTAREA_CONTENT \<longrightarrow>
               razor_families scanner lx valid_symbols =
                 Fallthrough (if valid_symbols RAZOR_BLOCK_OPEN \<or> valid_symbols CSHARP_CONTEXT_CLOSE
                              then skip_whitespace lx else lx)))"
proof (rule conjI; rule impI)
  assume shorter: "length (context_stack scanner') < length (context_stack scanner)"
  from scan have ret: "razor_families scanner lx valid_symbols = Return b scanner' lx'"
  proof (cases rule: scan_cases)
    case razor
    then show ?thesis .
  next
    case (csharp l cs')
    with shorter show ?thesis by simp
  qed
  from pop_only_on_match [OF ret shorter]
  show "b \<and> result_symbol lx' = CSHARP_CONTEXT_CLOSE \<and>
            valid_symbols CSHARP_CONTEXT_CLOSE \<and> length (context_stack scanner) > 0 \<and>
            context_stack scanner' = butlast (context_stack scanner) \<and>
            ((last (context_stack scanner) = CONTEXT_CSHARP_BRACE \<and>
                lookahead (skip_whitespace lx) = ch CHR ''}'') \<or>
             (last (context_stack scanner) = CONTEXT_CSHARP_PAREN \<and>
                lookahead (skip_whitespace lx) = ch CHR '')''))"
    by (simp add: array_pop_def)
next
  assume a: "length (context_stack scanner) > 0 \<and>
          (lookahead (skip_whitespace lx) = ch CHR ''}'' \<or>
           lookahead (skip_whitespace lx) = ch CHR '')'') \<and>
          \<not> ((last (context_stack scanner) = CONTEXT_CSHARP_BRACE \<and>
                lookahead (skip_whitespace lx) = ch CHR ''}'') \<or>
             (last (context_stack scanner) = CONTEXT_CSHARP_PAREN \<and>
                lookahead (skip_whitespace lx) = ch CHR '')''))"
  then have ne: "context_stack scanner \<noteq> []" by auto
  note tail = mismatch_tail [where valid_symbols = valid_symbols, OF ne conjunct1 [OF conjunct2 [OF a]]
      conjunct2 [OF conjunct2 [OF a]]]
  have both: "context_stack scanner' = context_stack scanner \<and>
      \<not> (b \<and> result_symbol lx' = CSHARP_CONTEXT_CLOSE)"
    using scan
  proof (cases rule: scan_cases)
    case razor
    from raw_tail_Return [OF razor [unfolded tail]] show ?thesis
      by (auto simp: token_defs)
  next
    case (csharp l cs')
    from sub csharp(2) have "b \<longrightarrow> result_symbol lx' < CSHARP_TOKEN_COUNT"
      unfolding csharp_kinds_only_def by (metis fst_conv snd_conv)
    then show ?thesis using csharp(3) by (auto simp: token_defs)
  qed
  moreover have "razor_families scanner lx valid_symbols =
                 Fallthrough (if valid_symbols RAZOR_BLOCK_OPEN \<or> valid_symbols CSHARP_CONTEXT_CLOSE
                              then skip_whitespace lx else lx)"
    if "\<not> valid_symbols SCRIPT_CONTENT \<and> \<not> valid_symbols STYLE_CONTENT \<and>
             \<not> valid_symbols TITLE_CONTENT \<and> \<not> valid_symbols TEXTAREA_CONTENT"
    unfolding tail using that by (intro raw_tail_invalid) simp_all
  ultimately show "context_stack scanner' = context_stack scanner \<and>
            \<not> (b \<and> result_symbol lx' = CSHARP_CONTEXT_CLOSE) \<and>
            (\<not> valid_symbols SCRIPT_CONTENT \<and> \<not> valid_symbols STYLE_CONTENT \<and>
             \<not> valid_symbols TITLE_CONTENT \<and> \<not> valid_symbols TEXTAREA_CONTENT \<longrightarrow>
               razor_families scanner lx valid_symbols =
                 Fallthrough (if valid_symbols RAZOR_BLOCK_OPEN \<or> valid_symbols CSHARP_CONTEXT_CLOSE
                              then skip_whitespace lx else lx))"
    by blast
qed


text \<open>
  A mismatched closer can still end up in a token: with the brace tag on top, the input
  \<open>)\<close> and \<^verbatim>\<open>SCRIPT_CONTENT\<close> admissible besides \<^verbatim>\<open>CSHARP_CONTEXT_CLOSE\<close>, the
  call commits a \<^verbatim>\<open>SCRIPT_CONTENT\<close> token that consists of the \<open>)\<close>.
\<close>

theorem context_close_needs_match_counterexample:
  "tree_sitter_razor_external_scanner_scan sample_csharp_scan
     \<lparr>csharp_scanner = 0, context_stack = [CONTEXT_CSHARP_BRACE]\<rparr> (lexer_on (codes '')''))
     (admissible [CSHARP_CONTEXT_CLOSE, SCRIPT_CONTENT]) =
   (True, \<lparr>csharp_scanner = 0, context_stack = [CONTEXT_CSHARP_BRACE]\<rparr>,
    \<lparr>rest = [], pos = 1, tok_start = 0, mark = Some 1, result_symbol = SCRIPT_CONTENT\<rparr>) \<and>
   token_text (codes '')'')
     \<lparr>rest = [], pos = 1, tok_start = 0, mark = Some 1, result_symbol = SCRIPT_CONTENT\<rparr> =
   codes '')''"
  by code_simp

text \<open>Two instances: a matching \<open>}\<close> that pops, and a mismatched \<open>)\<close>.\<close>

theorem context_close_needs_match_witness:
  "csharp_kinds_only sample_csharp_scan \<and>
   tree_sitter_razor_external_scanner_scan sample_csharp_scan
     \<lparr>csharp_scanner = 0, context_stack = [CONTEXT_CSHARP_PAREN, CONTEXT_CSHARP_BRACE]\<rparr>
     (lexer_on (codes '' } x'')) (admissible [CSHARP_CONTEXT_CLOSE]) =
   (True, \<lparr>csharp_scanner = 0, context_stack = [CONTEXT_CSHARP_PAREN]\<rparr>,
    \<lparr>rest = codes '' x'', pos = 2, tok_start = 1, mark = None,
     result_symbol = CSHARP_CONTEXT_CLOSE\<rparr>) \<and>
   lookahead (skip_whitespace (lexer_on (codes '' } x''))) = ch CHR ''}'' \<and>
   tree_sitter_razor_external_scanner_scan sample_csharp_scan
     \<lparr>csharp_scanner = 0, context_stack = [CONTEXT_CSHARP_BRACE]\<rparr>
     (lexer_on (codes '' ) x'')) (admissible [CSHARP_CONTEXT_CLOSE]) =
   (False, \<lparr>csharp_scanner = 0, context_stack = [CONTEXT_CSHARP_BRACE]\<rparr>,
    \<lparr>rest = codes '') x'', pos = 1, tok_start = 1, mark = None, result_symbol = 0\<rparr>) \<and>
   lookahead (skip_whitespace (lexer_on (codes '' ) x''))) = ch CHR '')'' \<and>
   razor_families \<lparr>csharp_scanner = (0::nat), context_stack = [CONTEXT_CSHARP_BRACE]\<rparr>
     (lexer_on (codes '' ) x'')) (admissible [CSHARP_CONTEXT_CLOSE]) =
   Fallthrough \<lparr>rest = codes '') x'', pos = 1, tok_start = 1, mark = None, result_symbol = 0\<rparr>"
proof -
  have run1: "tree_sitter_razor_external_scanner_scan sample_csharp_scan
     \<lparr>csharp_scanner = 0, context_stack = [CONTEXT_CSHARP_PAREN, CONTEXT_CSHARP_BRACE]\<rparr>
     (lexer_on (codes '' } x'')) (admissible [CSHARP_CONTEXT_CLOSE]) =
   (True, \<lparr>csharp_scanner = 0, context_stack = [CONTEXT_CSHARP_PAREN]\<rparr>,
    \<lparr>rest = codes '' x'', pos = 2, tok_start = 1, mark = None,
     result_symbol = CSHARP_CONTEXT_CLOSE\<rparr>)"
    by code_simp
  have run2: "tree_sitter_razor_external_scanner_scan sample_csharp_scan
     \<lparr>csharp_scanner = 0, context_stack = [CONTEXT_CSHARP_BRACE]\<rparr>
     (lexer_on (codes '' ) x'')) (admissible [CSHARP_CONTEXT_CLOSE]) =
   (False, \<lparr>csharp_scanner = 0, context_stack = [CONTEXT_CSHARP_BRACE]\<rparr>,
    \<lparr>rest = codes '') x'', pos = 1, tok_start = 1, mark = None, result_symbol = 0\<rparr>)"
    by code_simp
  have skip1: "skip_whitespace (lexer_on [32, 125, 32, 120]) =
      \<lparr>rest = [125, 32, 120], pos = 1, tok_start = 1, mark = None, result_symbol = 0\<rparr>"
    by code_simp
  have skip2: "skip_whitespace (lexer_on [32, 41, 32, 120]) =
      \<lparr>rest = [41, 32, 120], pos = 1, tok_start = 1, mark = None, result_symbol = 0\<rparr>"
    by code_simp
  from context_close_needs_match [OF sample_csharp_kinds_only run1]
    context_close_needs_match [OF sample_csharp_kinds_only run2]
    run1 run2 sample_csharp_kinds_only
  show ?thesis
    by (simp add: skip1 skip2 lookahead_def codes_def context_defs token_defs)
qed

section \<open>Delegation to the C\# scanner\<close>

lemma decline_sources:
  assumes "razor_families scanner lx valid_symbols = Return False scanner' lx'"
  shows "scanner' = scanner \<and>
         ((valid_symbols HTML_TEXT_CONTENT \<and> context_stack scanner = []) \<or>
          valid_symbols CSHARP_CODE_BLOCK_START \<or> valid_symbols CSHARP_EXPLICIT_EXPR_START \<or>
          (valid_symbols CSHARP_COMMENT \<and> context_stack scanner \<noteq> []) \<or>
          valid_symbols SCRIPT_CONTENT \<or> valid_symbols STYLE_CONTENT \<or>
          valid_symbols TITLE_CONTENT \<or> valid_symbols TEXTAREA_CONTENT)"
  using assms unfolding razor_families_def
proof (elim or_else_Return, goal_cases)
  case 1
  then show ?case
    by (auto simp: scan_text_with_literal_at_def commit_def split: if_splits prod.splits)
next
  case (2 l)
  then show ?case
    by (auto simp: scan_html_text_content_def commit_def in_csharp_context_def
        split: if_splits prod.splits)
next
  case (3 l1 l2)
  then show ?case
    by (auto simp: scan_context_open_def commit_def Let_def split: if_splits)
next
  case (4 l1 l2 l3)
  then show ?case
    by (auto simp: scan_razor_block_open_def commit_def Let_def split: if_splits)
next
  case (5 l1 l2 l3 l4)
  then show ?case
    by (auto simp: scan_context_close_def commit_def Let_def split: if_splits)
next
  case (6 l1 l2 l3 l4 l5)
  then show ?case
    by (auto simp: scan_csharp_comment_def commit_def Let_def in_csharp_context_def
        split: if_splits)
next
  case (7 l1 l2 l3 l4 l5 l6)
  then show ?case
    by (auto simp: scan_csharp_preproc_def commit_def Let_def split: if_splits)
next
  case (8 l1 l2 l3 l4 l5 l6 l7)
  then show ?case
    using raw_content_Return [where kind = SCRIPT_CONTENT and valid_symbols = valid_symbols]
    unfolding scan_script_content_def by blast
next
  case (9 l1 l2 l3 l4 l5 l6 l7 l8)
  then show ?case
    using raw_content_Return [where kind = STYLE_CONTENT and valid_symbols = valid_symbols]
    unfolding scan_style_content_def by blast
next
  case (10 l1 l2 l3 l4 l5 l6 l7 l8 l9)
  then show ?case
    using raw_content_Return [where kind = TITLE_CONTENT and valid_symbols = valid_symbols]
    unfolding scan_title_content_def by blast
next
  case (11 l1 l2 l3 l4 l5 l6 l7 l8 l9 l10)
  then show ?case
    using raw_content_Return [where kind = TEXTAREA_CONTENT and valid_symbols = valid_symbols]
    unfolding scan_textarea_content_def by blast
qed

subsection \<open>Where a block returns false\<close>

lemma or_else_Return_iff:
  "or_else r f = Return b s l \<longleftrightarrow>
     r = Return b s l \<or> (\<exists>l0. r = Fallthrough l0 \<and> f l0 = Return b s l)"
  by (cases r) (simp_all add: or_else_def)

lemma or_else_Fallthrough_iff:
  "or_else r f = Fallthrough l \<longleftrightarrow> (\<exists>l0. r = Fallthrough l0 \<and> f l0 = Fallthrough l)"
  by (cases r) (simp_all add: or_else_def)

lemma falls_through_Cons:
  "falls_through (block # blocks) scanner lx valid_symbols = Some l \<longleftrightarrow>
     (\<exists>l0. block scanner lx valid_symbols = Fallthrough l0 \<and>
           falls_through blocks scanner l0 valid_symbols = Some l)"
  by (cases "block scanner lx valid_symbols") simp_all

lemma falls_through_Nil: "falls_through [] scanner lx valid_symbols = Some l \<longleftrightarrow> l = lx"
  by auto

lemma razor_families_Fallthrough_iff:
  "razor_families scanner lx valid_symbols = Fallthrough l \<longleftrightarrow>
   falls_through
     [scan_text_with_literal_at, scan_html_text_content, scan_context_open,
      scan_razor_block_open, scan_context_close, scan_csharp_comment, scan_csharp_preproc,
      scan_script_content, scan_style_content, scan_title_content, scan_textarea_content]
     scanner lx valid_symbols = Some l"
  unfolding razor_families_def or_else_Fallthrough_iff falls_through_Cons falls_through_Nil
  by auto

lemma razor_families_Return_iff:
  "razor_families scanner lx valid_symbols = Return b s' l' \<longleftrightarrow>
   scan_text_with_literal_at scanner lx valid_symbols = Return b s' l' \<or>
   (\<exists>l. falls_through [scan_text_with_literal_at] scanner lx valid_symbols = Some l \<and>
        scan_html_text_content scanner l valid_symbols = Return b s' l') \<or>
   (\<exists>l. falls_through [scan_text_with_literal_at, scan_html_text_content]
          scanner lx valid_symbols = Some l \<and>
        scan_context_open scanner l valid_symbols = Return b s' l') \<or>
   (\<exists>l. falls_through [scan_text_with_literal_at, scan_html_text_content, scan_context_open]
          scanner lx valid_symbols = Some l \<and>
        scan_razor_block_open scanner l valid_symbols = Return b s' l') \<or>
   (\<exists>l. falls_through [scan_text_with_literal_at, scan_html_text_content, scan_context_open,
          scan_razor_block_open] scanner lx valid_symbols = Some l \<and>
        scan_context_close scanner l valid_symbols = Return b s' l') \<or>
   (\<exists>l. falls_through [scan_text_with_literal_at, scan_html_text_content, scan_context_open,
          scan_razor_block_open, scan_context_close] scanner lx valid_symbols = Some l \<and>
        scan_csharp_comment scanner l valid_symbols = Return b s' l') \<or>
   (\<exists>l. falls_through [scan_text_with_literal_at, scan_html_text_content, scan_context_open,
          scan_razor_block_open, scan_context_close, scan_csharp_comment]
          scanner lx valid_symbols = Some l \<and>
        scan_csharp_preproc scanner l valid_symbols = Return b s' l') \<or>
   (\<exists>l. falls_through [scan_text_with_literal_at, scan_html_text_content, scan_context_open,
          scan_razor_block_open, scan_context_close, scan_csharp_comment, scan_csharp_preproc]
          scanner lx valid_symbols = Some l \<and>
        scan_script_content scanner l valid_symbols = Return b s' l') \<or>
   (\<exists>l. falls_through [scan_text_with_literal_at, scan_html_text_content, scan_context_open,
          scan_razor_block_open, scan_context_close, scan_csharp_comment, scan_csharp_preproc,
          scan_script_content] scanner lx valid_symbols = Some l \<and>
        scan_style_content scanner l valid_symbols = Return b s' l') \<or>
   (\<exists>l. falls_through [scan_text_with_literal_at, scan_html_text_content, scan_context_open,
          scan_razor_block_open, scan_context_close, scan_csharp_comment, scan_csharp_preproc,
          scan_script_content, scan_style_content] scanner lx valid_symbols = Some l \<and>
        scan_title_content scanner l valid_symbols = Return b s' l') \<or>
   (\<exists>l. falls_through [scan_text_with_literal_at, scan_html_text_content, scan_context_open,
          scan_razor_block_open, scan_context_close, scan_csharp_comment, scan_csharp_preproc,
          scan_script_content, scan_style_content, scan_title_content]
          scanner lx valid_symbols = Some l \<and>
        scan_textarea_content scanner l valid_symbols = Return b s' l')"
  unfolding razor_families_def or_else_Return_iff falls_through_Cons falls_through_Nil
  by auto


lemma text_with_literal_at_no_decline:
  "scan_text_with_literal_at scanner l valid_symbols \<noteq> Return False s' l'"
  by (auto simp: scan_text_with_literal_at_def commit_def split: if_splits prod.splits)

lemma razor_block_open_no_decline:
  "scan_razor_block_open scanner l valid_symbols \<noteq> Return False s' l'"
  by (auto simp: scan_razor_block_open_def commit_def Let_def split: if_splits)

lemma context_close_no_decline:
  "scan_context_close scanner l valid_symbols \<noteq> Return False s' l'"
  by (auto simp: scan_context_close_def commit_def Let_def split: if_splits)

lemma csharp_preproc_no_decline:
  "scan_csharp_preproc scanner l valid_symbols \<noteq> Return False s' l'"
  by (auto simp: scan_csharp_preproc_def commit_def Let_def split: if_splits)

lemma context_open_declines_iff:
  "scan_context_open scanner l valid_symbols = Return False s' l' \<longleftrightarrow>
     (valid_symbols CSHARP_CODE_BLOCK_START \<or> valid_symbols CSHARP_EXPLICIT_EXPR_START) \<and>
     lookahead l = ch CHR ''@'' \<and>
     \<not> (valid_symbols CSHARP_CODE_BLOCK_START \<and> lookahead (razor_advance l) = ch CHR ''{'') \<and>
     \<not> (valid_symbols CSHARP_EXPLICIT_EXPR_START \<and> lookahead (razor_advance l) = ch CHR ''('') \<and>
     s' = scanner \<and> l' = razor_advance l"
  by (auto simp: scan_context_open_def commit_def Let_def split: if_splits)

lemma csharp_comment_declines_iff:
  "scan_csharp_comment scanner l valid_symbols = Return False s' l' \<longleftrightarrow>
     valid_symbols CSHARP_COMMENT \<and> context_stack scanner \<noteq> [] \<and>
     lookahead l = ch CHR ''/'' \<and>
     lookahead (razor_advance l) \<noteq> ch CHR ''/'' \<and> lookahead (razor_advance l) \<noteq> ch CHR ''*'' \<and>
     s' = scanner \<and> l' = razor_advance l"
  by (auto simp: scan_csharp_comment_def commit_def Let_def in_csharp_context_def
      split: if_splits)

lemma html_loop_keeps_content: "h \<Longrightarrow> fst (html_text_loop h a lx)"
proof (induction h a lx rule: html_text_loop.induct)
  case (1 has_content at_line_start lx)
  show ?case
    using "1.prems" "1.IH"
    by (subst html_text_loop.simps) (simp add: Let_def)
qed

lemma html_loop_keyword_iff:
  "html_text_loop False True l = (False, True, l') \<longleftrightarrow>
     (lookahead l = ch CHR ''e'' \<or> lookahead l = ch CHR ''c'' \<or> lookahead l = ch CHR ''f'') \<and>
     is_keyword_run (lookahead l) (fst (keyword_run 0 [] (mark_end l)))
       (snd (keyword_run 0 [] (mark_end l))) \<and>
     l' = snd (keyword_run 0 [] (mark_end l))"
proof -
  have keep: "html_text_loop True a lx \<noteq> (False, k, lx')" for a lx k lx'
    using html_loop_keeps_content [of True a lx] by auto
  show ?thesis
    by (subst html_text_loop.simps)
       (auto simp: Let_def keep eof_def lookahead_def split: list.splits)
qed

lemma html_text_content_declines_iff:
  "scan_html_text_content scanner l valid_symbols = Return False s' l' \<longleftrightarrow>
     valid_symbols HTML_TEXT_CONTENT \<and> context_stack scanner = [] \<and>
     (lookahead l = ch CHR ''e'' \<or> lookahead l = ch CHR ''c'' \<or> lookahead l = ch CHR ''f'') \<and>
     is_keyword_run (lookahead l) (fst (keyword_run 0 [] (mark_end l)))
       (snd (keyword_run 0 [] (mark_end l))) \<and>
     s' = scanner \<and> l' = snd (keyword_run 0 [] (mark_end l))"
proof -
  obtain h k lx' where fields: "html_text_loop False True l = (h, k, lx')"
    by (cases "html_text_loop False True l")
  have block: "scan_html_text_content scanner l valid_symbols = Return False s' l' \<longleftrightarrow>
      valid_symbols HTML_TEXT_CONTENT \<and> context_stack scanner = [] \<and> \<not> h \<and> k \<and>
      s' = scanner \<and> l' = lx'"
    by (auto simp: scan_html_text_content_def commit_def in_csharp_context_def fields)
  have loop: "\<not> h \<and> k \<and> l' = lx' \<longleftrightarrow>
      (lookahead l = ch CHR ''e'' \<or> lookahead l = ch CHR ''c'' \<or> lookahead l = ch CHR ''f'') \<and>
      is_keyword_run (lookahead l) (fst (keyword_run 0 [] (mark_end l)))
        (snd (keyword_run 0 [] (mark_end l))) \<and>
      l' = snd (keyword_run 0 [] (mark_end l))"
    using html_loop_keyword_iff [of l l'] unfolding fields by auto
  from block loop show ?thesis by blast
qed

lemma raw_loop_keeps_content: "h \<Longrightarrow> fst (raw_content_loop tag n h lx)"
proof (induction tag n h lx rule: raw_content_loop.induct)
  case (1 tag n has_content lx)
  show ?case
    using "1.prems" "1.IH"
    by (subst raw_content_loop.simps) (simp add: Let_def)
qed

lemma raw_loop_start:
  assumes "lookahead lx \<noteq> ch CHR ''<''"
  shows "fst (raw_content_loop tag n False lx) \<longleftrightarrow> \<not> eof lx"
proof (cases "eof lx")
  case True
  then show ?thesis by (subst raw_content_loop.simps) simp
next
  case False
  then show ?thesis
    using raw_loop_keeps_content [of True tag n] assms
    by (subst raw_content_loop.simps) (simp add: Let_def)
qed

lemma raw_content_declines_iff:
  "(\<exists>l'. scan_raw_content kind tag n lower upper scanner l valid_symbols = Return False s' l') \<longleftrightarrow>
     valid_symbols kind \<and> (lookahead l = ch CHR ''<'' \<or> eof l) \<and> s' = scanner"
  using raw_loop_start [of l tag n]
  by (auto simp: scan_raw_content_def commit_def Let_def split: prod.splits)

lemma raw_content_returns:
  "valid_symbols kind \<Longrightarrow>
     \<exists>b l'. scan_raw_content kind tag n lower upper scanner l valid_symbols = Return b scanner l'"
  by (auto simp: scan_raw_content_def commit_def Let_def split: prod.splits)


lemma script_content_declines_iff:
  "(\<exists>l'. scan_script_content scanner l valid_symbols = Return False s' l') \<longleftrightarrow>
     valid_symbols SCRIPT_CONTENT \<and> (lookahead l = ch CHR ''<'' \<or> eof l) \<and> s' = scanner"
  unfolding scan_script_content_def by (rule raw_content_declines_iff)

lemma style_content_declines_iff:
  "(\<exists>l'. scan_style_content scanner l valid_symbols = Return False s' l') \<longleftrightarrow>
     valid_symbols STYLE_CONTENT \<and> (lookahead l = ch CHR ''<'' \<or> eof l) \<and> s' = scanner"
  unfolding scan_style_content_def by (rule raw_content_declines_iff)

lemma title_content_declines_iff:
  "(\<exists>l'. scan_title_content scanner l valid_symbols = Return False s' l') \<longleftrightarrow>
     valid_symbols TITLE_CONTENT \<and> (lookahead l = ch CHR ''<'' \<or> eof l) \<and> s' = scanner"
  unfolding scan_title_content_def by (rule raw_content_declines_iff)

lemma textarea_content_declines_iff:
  "(\<exists>l'. scan_textarea_content scanner l valid_symbols = Return False s' l') \<longleftrightarrow>
     valid_symbols TEXTAREA_CONTENT \<and> (lookahead l = ch CHR ''<'' \<or> eof l) \<and> s' = scanner"
  unfolding scan_textarea_content_def by (rule raw_content_declines_iff)

lemma raw_admissible_returns:
  assumes "valid_symbols SCRIPT_CONTENT \<or> valid_symbols STYLE_CONTENT \<or>
    valid_symbols TITLE_CONTENT \<or> valid_symbols TEXTAREA_CONTENT"
  shows "razor_families scanner lx valid_symbols \<noteq> Fallthrough l"
proof
  assume "razor_families scanner lx valid_symbols = Fallthrough l"
  then obtain l7 l8 l9 l10 where
    "scan_script_content scanner l7 valid_symbols = Fallthrough l8"
    "scan_style_content scanner l8 valid_symbols = Fallthrough l9"
    "scan_title_content scanner l9 valid_symbols = Fallthrough l10"
    "scan_textarea_content scanner l10 valid_symbols = Fallthrough l"
    unfolding razor_families_def or_else_Fallthrough_iff by blast
  with assms show False
    using raw_content_returns [of valid_symbols SCRIPT_CONTENT]
      raw_content_returns [of valid_symbols STYLE_CONTENT]
      raw_content_returns [of valid_symbols TITLE_CONTENT]
      raw_content_returns [of valid_symbols TEXTAREA_CONTENT]
    unfolding scan_script_content_def scan_style_content_def scan_title_content_def
      scan_textarea_content_def
    by (metis outcome.distinct(1))
qed

lemma razor_families_ReturnI:
  "falls_through
       [scan_text_with_literal_at]
       scanner lx valid_symbols = Some l \<Longrightarrow>
     scan_html_text_content scanner l valid_symbols = Return b s' l' \<Longrightarrow>
     razor_families scanner lx valid_symbols = Return b s' l'"
  "falls_through
       [scan_text_with_literal_at, scan_html_text_content]
       scanner lx valid_symbols = Some l \<Longrightarrow>
     scan_context_open scanner l valid_symbols = Return b s' l' \<Longrightarrow>
     razor_families scanner lx valid_symbols = Return b s' l'"
  "falls_through
       [scan_text_with_literal_at, scan_html_text_content, scan_context_open]
       scanner lx valid_symbols = Some l \<Longrightarrow>
     scan_razor_block_open scanner l valid_symbols = Return b s' l' \<Longrightarrow>
     razor_families scanner lx valid_symbols = Return b s' l'"
  "falls_through
       [scan_text_with_literal_at, scan_html_text_content, scan_context_open,
        scan_razor_block_open]
       scanner lx valid_symbols = Some l \<Longrightarrow>
     scan_context_close scanner l valid_symbols = Return b s' l' \<Longrightarrow>
     razor_families scanner lx valid_symbols = Return b s' l'"
  "falls_through
       [scan_text_with_literal_at, scan_html_text_content, scan_context_open,
        scan_razor_block_open, scan_context_close]
       scanner lx valid_symbols = Some l \<Longrightarrow>
     scan_csharp_comment scanner l valid_symbols = Return b s' l' \<Longrightarrow>
     razor_families scanner lx valid_symbols = Return b s' l'"
  "falls_through
       [scan_text_with_literal_at, scan_html_text_content, scan_context_open,
        scan_razor_block_open, scan_context_close, scan_csharp_comment]
       scanner lx valid_symbols = Some l \<Longrightarrow>
     scan_csharp_preproc scanner l valid_symbols = Return b s' l' \<Longrightarrow>
     razor_families scanner lx valid_symbols = Return b s' l'"
  "falls_through
       [scan_text_with_literal_at, scan_html_text_content, scan_context_open,
        scan_razor_block_open, scan_context_close, scan_csharp_comment,
        scan_csharp_preproc]
       scanner lx valid_symbols = Some l \<Longrightarrow>
     scan_script_content scanner l valid_symbols = Return b s' l' \<Longrightarrow>
     razor_families scanner lx valid_symbols = Return b s' l'"
  "falls_through
       [scan_text_with_literal_at, scan_html_text_content, scan_context_open,
        scan_razor_block_open, scan_context_close, scan_csharp_comment,
        scan_csharp_preproc, scan_script_content]
       scanner lx valid_symbols = Some l \<Longrightarrow>
     scan_style_content scanner l valid_symbols = Return b s' l' \<Longrightarrow>
     razor_families scanner lx valid_symbols = Return b s' l'"
  "falls_through
       [scan_text_with_literal_at, scan_html_text_content, scan_context_open,
        scan_razor_block_open, scan_context_close, scan_csharp_comment,
        scan_csharp_preproc, scan_script_content, scan_style_content]
       scanner lx valid_symbols = Some l \<Longrightarrow>
     scan_title_content scanner l valid_symbols = Return b s' l' \<Longrightarrow>
     razor_families scanner lx valid_symbols = Return b s' l'"
  "falls_through
       [scan_text_with_literal_at, scan_html_text_content, scan_context_open,
        scan_razor_block_open, scan_context_close, scan_csharp_comment,
        scan_csharp_preproc, scan_script_content, scan_style_content, scan_title_content]
       scanner lx valid_symbols = Some l \<Longrightarrow>
     scan_textarea_content scanner l valid_symbols = Return b s' l' \<Longrightarrow>
     razor_families scanner lx valid_symbols = Return b s' l'"
  unfolding razor_families_Return_iff by blast+

lemma decline_sites:
  "(\<exists>s' l'. razor_families scanner lx valid_symbols = Return False s' l') \<longleftrightarrow>
    (\<exists>l. falls_through
            [scan_text_with_literal_at]
            scanner lx valid_symbols = Some l \<and>
         valid_symbols HTML_TEXT_CONTENT \<and> context_stack scanner = [] \<and>
         (lookahead l = ch CHR ''e'' \<or> lookahead l = ch CHR ''c'' \<or>
          lookahead l = ch CHR ''f'') \<and>
         is_keyword_run (lookahead l) (fst (keyword_run 0 [] (mark_end l)))
           (snd (keyword_run 0 [] (mark_end l)))) \<or>
    (\<exists>l. falls_through
            [scan_text_with_literal_at, scan_html_text_content]
            scanner lx valid_symbols = Some l \<and>
         (valid_symbols CSHARP_CODE_BLOCK_START \<or> valid_symbols CSHARP_EXPLICIT_EXPR_START) \<and>
         lookahead l = ch CHR ''@'' \<and>
         \<not> (valid_symbols CSHARP_CODE_BLOCK_START \<and>
            lookahead (razor_advance l) = ch CHR ''{'') \<and>
         \<not> (valid_symbols CSHARP_EXPLICIT_EXPR_START \<and>
            lookahead (razor_advance l) = ch CHR ''('')) \<or>
    (\<exists>l. falls_through
            [scan_text_with_literal_at, scan_html_text_content, scan_context_open,
             scan_razor_block_open, scan_context_close]
            scanner lx valid_symbols = Some l \<and>
         valid_symbols CSHARP_COMMENT \<and> context_stack scanner \<noteq> [] \<and>
         lookahead l = ch CHR ''/'' \<and>
         lookahead (razor_advance l) \<noteq> ch CHR ''/'' \<and>
         lookahead (razor_advance l) \<noteq> ch CHR ''*'') \<or>
    (\<exists>l. falls_through
            [scan_text_with_literal_at, scan_html_text_content, scan_context_open,
             scan_razor_block_open, scan_context_close, scan_csharp_comment,
             scan_csharp_preproc]
            scanner lx valid_symbols = Some l \<and>
         valid_symbols SCRIPT_CONTENT \<and> (lookahead l = ch CHR ''<'' \<or> eof l)) \<or>
    (\<exists>l. falls_through
            [scan_text_with_literal_at, scan_html_text_content, scan_context_open,
             scan_razor_block_open, scan_context_close, scan_csharp_comment,
             scan_csharp_preproc, scan_script_content]
            scanner lx valid_symbols = Some l \<and>
         valid_symbols STYLE_CONTENT \<and> (lookahead l = ch CHR ''<'' \<or> eof l)) \<or>
    (\<exists>l. falls_through
            [scan_text_with_literal_at, scan_html_text_content, scan_context_open,
             scan_razor_block_open, scan_context_close, scan_csharp_comment,
             scan_csharp_preproc, scan_script_content, scan_style_content]
            scanner lx valid_symbols = Some l \<and>
         valid_symbols TITLE_CONTENT \<and> (lookahead l = ch CHR ''<'' \<or> eof l)) \<or>
    (\<exists>l. falls_through
            [scan_text_with_literal_at, scan_html_text_content, scan_context_open,
             scan_razor_block_open, scan_context_close, scan_csharp_comment,
             scan_csharp_preproc, scan_script_content, scan_style_content,
             scan_title_content]
            scanner lx valid_symbols = Some l \<and>
         valid_symbols TEXTAREA_CONTENT \<and> (lookahead l = ch CHR ''<'' \<or> eof l))"
  (is "?L \<longleftrightarrow> ?R")
proof
  assume ?L
  then obtain s' l' where "razor_families scanner lx valid_symbols = Return False s' l'"
    by blast
  then show ?R
    unfolding razor_families_Return_iff
  proof (elim disjE exE conjE, goal_cases)
    case 1
    then show ?case by (simp add: text_with_literal_at_no_decline)
  next
    case (2 l)
    from 2(1) 2(2) [unfolded html_text_content_declines_iff] show ?case by blast
  next
    case (3 l)
    from 3(1) 3(2) [unfolded context_open_declines_iff] show ?case by blast
  next
    case (4 l)
    then show ?case by (simp add: razor_block_open_no_decline)
  next
    case (5 l)
    then show ?case by (simp add: context_close_no_decline)
  next
    case (6 l)
    from 6(1) 6(2) [unfolded csharp_comment_declines_iff] show ?case by blast
  next
    case (7 l)
    then show ?case by (simp add: csharp_preproc_no_decline)
  next
    case (8 l)
    from 8(2) have "valid_symbols SCRIPT_CONTENT \<and> (lookahead l = ch CHR ''<'' \<or> eof l)"
      using script_content_declines_iff [of scanner l valid_symbols s'] by blast
    with 8(1) show ?case by blast
  next
    case (9 l)
    from 9(2) have "valid_symbols STYLE_CONTENT \<and> (lookahead l = ch CHR ''<'' \<or> eof l)"
      using style_content_declines_iff [of scanner l valid_symbols s'] by blast
    with 9(1) show ?case by blast
  next
    case (10 l)
    from 10(2) have "valid_symbols TITLE_CONTENT \<and> (lookahead l = ch CHR ''<'' \<or> eof l)"
      using title_content_declines_iff [of scanner l valid_symbols s'] by blast
    with 10(1) show ?case by blast
  next
    case (11 l)
    from 11(2) have "valid_symbols TEXTAREA_CONTENT \<and> (lookahead l = ch CHR ''<'' \<or> eof l)"
      using textarea_content_declines_iff [of scanner l valid_symbols s'] by blast
    with 11(1) show ?case by blast
  qed
next
  assume ?R
  then show ?L
  proof (elim disjE, goal_cases)
    case 1
    then obtain l l' where "falls_through [scan_text_with_literal_at] scanner lx valid_symbols = Some l"
      "scan_html_text_content scanner l valid_symbols = Return False scanner l'"
      unfolding html_text_content_declines_iff by blast
    from razor_families_ReturnI(1) [OF this] show ?case by blast
  next
    case 2
    then obtain l l' where "falls_through [scan_text_with_literal_at, scan_html_text_content]
        scanner lx valid_symbols = Some l"
      "scan_context_open scanner l valid_symbols = Return False scanner l'"
      unfolding context_open_declines_iff by blast
    from razor_families_ReturnI(2) [OF this] show ?case by blast
  next
    case 3
    then obtain l l' where "falls_through [scan_text_with_literal_at, scan_html_text_content,
        scan_context_open, scan_razor_block_open, scan_context_close]
        scanner lx valid_symbols = Some l"
      "scan_csharp_comment scanner l valid_symbols = Return False scanner l'"
      unfolding csharp_comment_declines_iff by blast
    from razor_families_ReturnI(5) [OF this] show ?case by blast
  next
    case 4
    then obtain l l' where "falls_through [scan_text_with_literal_at, scan_html_text_content,
        scan_context_open, scan_razor_block_open, scan_context_close, scan_csharp_comment,
        scan_csharp_preproc] scanner lx valid_symbols = Some l"
      "scan_script_content scanner l valid_symbols = Return False scanner l'"
      using script_content_declines_iff [of scanner _ valid_symbols scanner] by blast
    from razor_families_ReturnI(7) [OF this] show ?case by blast
  next
    case 5
    then obtain l l' where "falls_through [scan_text_with_literal_at, scan_html_text_content,
        scan_context_open, scan_razor_block_open, scan_context_close, scan_csharp_comment,
        scan_csharp_preproc, scan_script_content] scanner lx valid_symbols = Some l"
      "scan_style_content scanner l valid_symbols = Return False scanner l'"
      using style_content_declines_iff [of scanner _ valid_symbols scanner] by blast
    from razor_families_ReturnI(8) [OF this] show ?case by blast
  next
    case 6
    then obtain l l' where "falls_through [scan_text_with_literal_at, scan_html_text_content,
        scan_context_open, scan_razor_block_open, scan_context_close, scan_csharp_comment,
        scan_csharp_preproc, scan_script_content, scan_style_content]
        scanner lx valid_symbols = Some l"
      "scan_title_content scanner l valid_symbols = Return False scanner l'"
      using title_content_declines_iff [of scanner _ valid_symbols scanner] by blast
    from razor_families_ReturnI(9) [OF this] show ?case by blast
  next
    case 7
    then obtain l l' where "falls_through [scan_text_with_literal_at, scan_html_text_content,
        scan_context_open, scan_razor_block_open, scan_context_close, scan_csharp_comment,
        scan_csharp_preproc, scan_script_content, scan_style_content, scan_title_content]
        scanner lx valid_symbols = Some l"
      "scan_textarea_content scanner l valid_symbols = Return False scanner l'"
      using textarea_content_declines_iff [of scanner _ valid_symbols scanner] by blast
    from razor_families_ReturnI(10) [OF this] show ?case by blast
  qed
qed


lemma decline_at_sign:
  assumes "valid_symbols CSHARP_CODE_BLOCK_START \<or> valid_symbols CSHARP_EXPLICIT_EXPR_START"
    and "lookahead lx = ch CHR ''@''"
    and "\<not> (valid_symbols CSHARP_CODE_BLOCK_START \<and> lookahead (razor_advance lx) = ch CHR ''{'')"
    and "\<not> (valid_symbols CSHARP_EXPLICIT_EXPR_START \<and> lookahead (razor_advance lx) = ch CHR ''('')"
  shows "razor_families scanner lx valid_symbols = Return False scanner (razor_advance lx)"
proof -
  have reach: "falls_through [scan_text_with_literal_at, scan_html_text_content]
      scanner lx valid_symbols = Some lx"
    using assms(2) by (simp add: before_open_at)
  have "scan_context_open scanner lx valid_symbols = Return False scanner (razor_advance lx)"
    unfolding context_open_declines_iff using assms by blast
  from razor_families_ReturnI(2) [OF reach this] show ?thesis .
qed

lemma before_comment_at_slash:
  assumes "lookahead lx = ch CHR ''/''"
  shows "scan_context_open scanner lx valid_symbols = Fallthrough lx"
    and "scan_razor_block_open scanner lx valid_symbols = Fallthrough lx"
    and "scan_context_close scanner lx valid_symbols = Fallthrough lx"
  using assms
  by (simp_all add: scan_context_open_def scan_razor_block_open_def scan_context_close_def
      skip_whitespace_none iswspace_def)

lemma decline_lone_slash:
  assumes "valid_symbols CSHARP_COMMENT" and "context_stack scanner \<noteq> []"
    and "lookahead lx = ch CHR ''/''"
    and "lookahead (razor_advance lx) \<noteq> ch CHR ''/''"
    and "lookahead (razor_advance lx) \<noteq> ch CHR ''*''"
  shows "razor_families scanner lx valid_symbols = Return False scanner (razor_advance lx)"
proof -
  have reach: "falls_through [scan_text_with_literal_at, scan_html_text_content,
      scan_context_open, scan_razor_block_open, scan_context_close]
      scanner lx valid_symbols = Some lx"
    using assms(2,3) by (simp add: in_context_skips_markup before_comment_at_slash)
  have "scan_csharp_comment scanner lx valid_symbols = Return False scanner (razor_advance lx)"
    unfolding csharp_comment_declines_iff using assms by blast
  from razor_families_ReturnI(5) [OF reach this] show ?thesis .
qed

lemma text_at_loop_eof: "eof lx \<Longrightarrow> text_at_loop found w lx = (found, lx)"
  by (subst text_at_loop.simps) simp

lemma html_text_loop_eof: "eof lx \<Longrightarrow> html_text_loop h a lx = (h, False, lx)"
  by (subst html_text_loop.simps) simp

lemma before_raw_at_eof:
  assumes "eof lx"
  shows "scan_text_with_literal_at scanner lx valid_symbols = Fallthrough lx"
    and "scan_html_text_content scanner lx valid_symbols = Fallthrough lx"
    and "scan_context_open scanner lx valid_symbols = Fallthrough lx"
    and "scan_razor_block_open scanner lx valid_symbols = Fallthrough lx"
    and "scan_context_close scanner lx valid_symbols = Fallthrough lx"
    and "scan_csharp_comment scanner lx valid_symbols = Fallthrough lx"
    and "scan_csharp_preproc scanner lx valid_symbols = Fallthrough lx"
  using assms lookahead_eof [OF assms]
  by (simp_all add: scan_text_with_literal_at_def text_at_loop_eof
      scan_html_text_content_def html_text_loop_eof scan_context_open_def
      scan_razor_block_open_def scan_context_close_def skip_whitespace_none
      scan_csharp_comment_def scan_csharp_preproc_def)

lemma raw_content_at_eof:
  assumes "eof lx" and "valid_symbols kind"
  shows "scan_raw_content kind tag n lower upper scanner lx valid_symbols =
         Return False scanner lx"
proof -
  have "raw_content_loop tag n False lx = (False, lx)"
    using assms(1) by (subst raw_content_loop.simps) simp
  then show ?thesis
    using assms lookahead_eof [OF assms(1)] by (simp add: scan_raw_content_def)
qed

lemma decline_raw_at_eof:
  assumes "eof lx"
    and "valid_symbols SCRIPT_CONTENT \<or> valid_symbols STYLE_CONTENT \<or>
         valid_symbols TITLE_CONTENT \<or> valid_symbols TEXTAREA_CONTENT"
  shows "razor_families scanner lx valid_symbols = Return False scanner lx"
proof -
  have raw: "(if valid_symbols kind
              then scan_raw_content kind tag n lower upper scanner lx valid_symbols =
                   Return False scanner lx
              else scan_raw_content kind tag n lower upper scanner lx valid_symbols =
                   Fallthrough lx)" for kind tag n lower upper
  proof (cases "valid_symbols kind")
    case True
    then show ?thesis by (simp add: raw_content_at_eof [OF assms(1)])
  next
    case False
    then show ?thesis by (simp add: scan_raw_content_def)
  qed
  show ?thesis
    using assms(2)
      raw [of SCRIPT_CONTENT "codes ''script''" 6 "ch CHR ''s''" "ch CHR ''S''"]
      raw [of STYLE_CONTENT "codes ''style''" 5 "ch CHR ''s''" "ch CHR ''S''"]
      raw [of TITLE_CONTENT "codes ''title''" 5 "ch CHR ''t''" "ch CHR ''T''"]
      raw [of TEXTAREA_CONTENT "codes ''textarea''" 8 "ch CHR ''t''" "ch CHR ''T''"]
    unfolding razor_families_def scan_script_content_def scan_style_content_def
      scan_title_content_def scan_textarea_content_def
    by (simp add: before_raw_at_eof [OF assms(1)] or_else_def split: if_splits)
qed

lemma decline_at_keyword:
  assumes "\<not> valid_symbols TEXT_WITH_LITERAL_AT"
    and "valid_symbols HTML_TEXT_CONTENT" and "context_stack scanner = []"
    and "lookahead lx = ch CHR ''e'' \<or> lookahead lx = ch CHR ''c'' \<or> lookahead lx = ch CHR ''f''"
    and "is_keyword_run (lookahead lx) (fst (keyword_run 0 [] (mark_end lx)))
           (snd (keyword_run 0 [] (mark_end lx)))"
  shows "razor_families scanner lx valid_symbols =
         Return False scanner (snd (keyword_run 0 [] (mark_end lx)))"
proof -
  have reach: "falls_through [scan_text_with_literal_at] scanner lx valid_symbols = Some lx"
    using assms(1) by (simp add: scan_text_with_literal_at_def)
  have "scan_html_text_content scanner lx valid_symbols =
      Return False scanner (snd (keyword_run 0 [] (mark_end lx)))"
    unfolding html_text_content_declines_iff using assms by blast
  from razor_families_ReturnI(1) [OF reach this] show ?thesis .
qed

text \<open>
  Claim C9, as amended. The scan function calls the C\# scanner exactly when each of
  its eleven blocks, in the order of the source, has fallen through, and its result is
  then the C\# scanner's. A block that returns false ends the call without that
  delegation: the call declines and the scanner is as it was. This happens exactly when
  control reaches

  \<^item> the markup text block, with \<^verbatim>\<open>HTML_TEXT_CONTENT\<close> admissible and the stack
    empty, at an \<open>e\<close>, \<open>c\<close> or \<open>f\<close> on which the keyword check succeeds, so
    that the loop stops at the keyword with no content before it;
  \<^item> the block that opens a C\# context, with one of its two kinds admissible, at
    an at-sign that is not followed by an admissible brace or parenthesis;
  \<^item> the comment block, with \<^verbatim>\<open>CSHARP_COMMENT\<close> admissible and the stack not
    empty, at a slash that is followed neither by a slash nor by a star;
  \<^item> a raw-content block whose kind is admissible, at a \<open><\<close> or at the end of the
    input, where it has no content.

  A raw-content block whose kind is admissible never falls through, so that a call with
  one of the four raw-content kinds admissible is never delegated. When none of the
  eight kinds named above is admissible, a call in which no block commits is always
  delegated. The last four conjuncts give the declines in terms of the input of the
  call, for any C\# scanner: an at-sign not followed by an admissible brace or
  parenthesis; inside a C\# context, a slash followed neither by a slash nor by a star;
  the end of the input with a raw-content kind admissible; and a keyword at the start of
  the input when \<^verbatim>\<open>TEXT_WITH_LITERAL_AT\<close> is not admissible.
\<close>

theorem delegation_to_csharp_scanner:
  "(razor_families scanner lx valid_symbols = Fallthrough l \<longleftrightarrow>
      falls_through
        [scan_text_with_literal_at, scan_html_text_content, scan_context_open,
         scan_razor_block_open, scan_context_close, scan_csharp_comment, scan_csharp_preproc,
         scan_script_content, scan_style_content, scan_title_content, scan_textarea_content]
        scanner lx valid_symbols = Some l) \<and>
   (razor_families scanner lx valid_symbols = Fallthrough l \<longrightarrow>
      tree_sitter_razor_external_scanner_scan csharp_scan scanner lx valid_symbols =
        (case csharp_scan (csharp_scanner scanner) l valid_symbols of
           (b, cs', l') \<Rightarrow> (b, scanner\<lparr>csharp_scanner := cs'\<rparr>, l'))) \<and>
   (razor_families scanner lx valid_symbols = Return False scanner' lx' \<longrightarrow>
      scanner' = scanner \<and>
      tree_sitter_razor_external_scanner_scan csharp_scan scanner lx valid_symbols =
        (False, scanner, lx')) \<and>
   ((\<exists>s' l'. razor_families scanner lx valid_symbols = Return False s' l') \<longleftrightarrow>
    (\<exists>l. falls_through
            [scan_text_with_literal_at]
            scanner lx valid_symbols = Some l \<and>
         valid_symbols HTML_TEXT_CONTENT \<and> context_stack scanner = [] \<and>
         (lookahead l = ch CHR ''e'' \<or> lookahead l = ch CHR ''c'' \<or>
          lookahead l = ch CHR ''f'') \<and>
         is_keyword_run (lookahead l) (fst (keyword_run 0 [] (mark_end l)))
           (snd (keyword_run 0 [] (mark_end l)))) \<or>
    (\<exists>l. falls_through
            [scan_text_with_literal_at, scan_html_text_content]
            scanner lx valid_symbols = Some l \<and>
         (valid_symbols CSHARP_CODE_BLOCK_START \<or> valid_symbols CSHARP_EXPLICIT_EXPR_START) \<and>
         lookahead l = ch CHR ''@'' \<and>
         \<not> (valid_symbols CSHARP_CODE_BLOCK_START \<and>
            lookahead (razor_advance l) = ch CHR ''{'') \<and>
         \<not> (valid_symbols CSHARP_EXPLICIT_EXPR_START \<and>
            lookahead (razor_advance l) = ch CHR ''('')) \<or>
    (\<exists>l. falls_through
            [scan_text_with_literal_at, scan_html_text_content, scan_context_open,
             scan_razor_block_open, scan_context_close]
            scanner lx valid_symbols = Some l \<and>
         valid_symbols CSHARP_COMMENT \<and> context_stack scanner \<noteq> [] \<and>
         lookahead l = ch CHR ''/'' \<and>
         lookahead (razor_advance l) \<noteq> ch CHR ''/'' \<and>
         lookahead (razor_advance l) \<noteq> ch CHR ''*'') \<or>
    (\<exists>l. falls_through
            [scan_text_with_literal_at, scan_html_text_content, scan_context_open,
             scan_razor_block_open, scan_context_close, scan_csharp_comment,
             scan_csharp_preproc]
            scanner lx valid_symbols = Some l \<and>
         valid_symbols SCRIPT_CONTENT \<and> (lookahead l = ch CHR ''<'' \<or> eof l)) \<or>
    (\<exists>l. falls_through
            [scan_text_with_literal_at, scan_html_text_content, scan_context_open,
             scan_razor_block_open, scan_context_close, scan_csharp_comment,
             scan_csharp_preproc, scan_script_content]
            scanner lx valid_symbols = Some l \<and>
         valid_symbols STYLE_CONTENT \<and> (lookahead l = ch CHR ''<'' \<or> eof l)) \<or>
    (\<exists>l. falls_through
            [scan_text_with_literal_at, scan_html_text_content, scan_context_open,
             scan_razor_block_open, scan_context_close, scan_csharp_comment,
             scan_csharp_preproc, scan_script_content, scan_style_content]
            scanner lx valid_symbols = Some l \<and>
         valid_symbols TITLE_CONTENT \<and> (lookahead l = ch CHR ''<'' \<or> eof l)) \<or>
    (\<exists>l. falls_through
            [scan_text_with_literal_at, scan_html_text_content, scan_context_open,
             scan_razor_block_open, scan_context_close, scan_csharp_comment,
             scan_csharp_preproc, scan_script_content, scan_style_content,
             scan_title_content]
            scanner lx valid_symbols = Some l \<and>
         valid_symbols TEXTAREA_CONTENT \<and> (lookahead l = ch CHR ''<'' \<or> eof l))) \<and>
   ((valid_symbols SCRIPT_CONTENT \<or> valid_symbols STYLE_CONTENT \<or>
     valid_symbols TITLE_CONTENT \<or> valid_symbols TEXTAREA_CONTENT) \<longrightarrow>
      (\<exists>b s' l'. razor_families scanner lx valid_symbols = Return b s' l')) \<and>
   (\<not> valid_symbols HTML_TEXT_CONTENT \<and> \<not> valid_symbols CSHARP_CODE_BLOCK_START \<and>
    \<not> valid_symbols CSHARP_EXPLICIT_EXPR_START \<and> \<not> valid_symbols CSHARP_COMMENT \<and>
    \<not> valid_symbols SCRIPT_CONTENT \<and> \<not> valid_symbols STYLE_CONTENT \<and>
    \<not> valid_symbols TITLE_CONTENT \<and> \<not> valid_symbols TEXTAREA_CONTENT \<longrightarrow>
      (\<exists>s' l'. razor_families scanner lx valid_symbols = Return True s' l') \<or>
      (\<exists>l. razor_families scanner lx valid_symbols = Fallthrough l \<and>
           tree_sitter_razor_external_scanner_scan csharp_scan scanner lx valid_symbols =
             (case csharp_scan (csharp_scanner scanner) l valid_symbols of
                (b, cs', l') \<Rightarrow> (b, scanner\<lparr>csharp_scanner := cs'\<rparr>, l')))) \<and>
   ((valid_symbols CSHARP_CODE_BLOCK_START \<or> valid_symbols CSHARP_EXPLICIT_EXPR_START) \<and>
    lookahead lx = ch CHR ''@'' \<and>
    \<not> (valid_symbols CSHARP_CODE_BLOCK_START \<and> lookahead (razor_advance lx) = ch CHR ''{'') \<and>
    \<not> (valid_symbols CSHARP_EXPLICIT_EXPR_START \<and> lookahead (razor_advance lx) = ch CHR ''('') \<longrightarrow>
      tree_sitter_razor_external_scanner_scan csharp_scan scanner lx valid_symbols =
        (False, scanner, razor_advance lx)) \<and>
   (valid_symbols CSHARP_COMMENT \<and> context_stack scanner \<noteq> [] \<and>
    lookahead lx = ch CHR ''/'' \<and> lookahead (razor_advance lx) \<noteq> ch CHR ''/'' \<and>
    lookahead (razor_advance lx) \<noteq> ch CHR ''*'' \<longrightarrow>
      tree_sitter_razor_external_scanner_scan csharp_scan scanner lx valid_symbols =
        (False, scanner, razor_advance lx)) \<and>
   (eof lx \<and>
    (valid_symbols SCRIPT_CONTENT \<or> valid_symbols STYLE_CONTENT \<or>
     valid_symbols TITLE_CONTENT \<or> valid_symbols TEXTAREA_CONTENT) \<longrightarrow>
      tree_sitter_razor_external_scanner_scan csharp_scan scanner lx valid_symbols =
        (False, scanner, lx)) \<and>
   (\<not> valid_symbols TEXT_WITH_LITERAL_AT \<and> valid_symbols HTML_TEXT_CONTENT \<and>
    context_stack scanner = [] \<and>
    (lookahead lx = ch CHR ''e'' \<or> lookahead lx = ch CHR ''c'' \<or> lookahead lx = ch CHR ''f'') \<and>
    is_keyword_run (lookahead lx) (fst (keyword_run 0 [] (mark_end lx)))
      (snd (keyword_run 0 [] (mark_end lx))) \<longrightarrow>
      tree_sitter_razor_external_scanner_scan csharp_scan scanner lx valid_symbols =
        (False, scanner, snd (keyword_run 0 [] (mark_end lx))))"
proof -
  have a1:
    "(razor_families scanner lx valid_symbols = Fallthrough l \<longleftrightarrow>
         falls_through
           [scan_text_with_literal_at, scan_html_text_content, scan_context_open,
            scan_razor_block_open, scan_context_close, scan_csharp_comment, scan_csharp_preproc,
            scan_script_content, scan_style_content, scan_title_content, scan_textarea_content]
           scanner lx valid_symbols = Some l)"
    by (rule razor_families_Fallthrough_iff)
  have a2:
    "(razor_families scanner lx valid_symbols = Fallthrough l \<longrightarrow>
         tree_sitter_razor_external_scanner_scan csharp_scan scanner lx valid_symbols =
           (case csharp_scan (csharp_scanner scanner) l valid_symbols of
              (b, cs', l') \<Rightarrow> (b, scanner\<lparr>csharp_scanner := cs'\<rparr>, l')))"
    by (simp add: tree_sitter_razor_external_scanner_scan_def)
  have a3:
    "(razor_families scanner lx valid_symbols = Return False scanner' lx' \<longrightarrow>
         scanner' = scanner \<and>
         tree_sitter_razor_external_scanner_scan csharp_scan scanner lx valid_symbols =
           (False, scanner, lx'))"
    using decline_sources [of scanner lx valid_symbols scanner' lx']
    by (simp add: tree_sitter_razor_external_scanner_scan_def)
  have a4:
    "((\<exists>s' l'. razor_families scanner lx valid_symbols = Return False s' l') \<longleftrightarrow>
       (\<exists>l. falls_through
               [scan_text_with_literal_at]
               scanner lx valid_symbols = Some l \<and>
            valid_symbols HTML_TEXT_CONTENT \<and> context_stack scanner = [] \<and>
            (lookahead l = ch CHR ''e'' \<or> lookahead l = ch CHR ''c'' \<or>
             lookahead l = ch CHR ''f'') \<and>
            is_keyword_run (lookahead l) (fst (keyword_run 0 [] (mark_end l)))
              (snd (keyword_run 0 [] (mark_end l)))) \<or>
       (\<exists>l. falls_through
               [scan_text_with_literal_at, scan_html_text_content]
               scanner lx valid_symbols = Some l \<and>
            (valid_symbols CSHARP_CODE_BLOCK_START \<or> valid_symbols CSHARP_EXPLICIT_EXPR_START) \<and>
            lookahead l = ch CHR ''@'' \<and>
            \<not> (valid_symbols CSHARP_CODE_BLOCK_START \<and>
               lookahead (razor_advance l) = ch CHR ''{'') \<and>
            \<not> (valid_symbols CSHARP_EXPLICIT_EXPR_START \<and>
               lookahead (razor_advance l) = ch CHR ''('')) \<or>
       (\<exists>l. falls_through
               [scan_text_with_literal_at, scan_html_text_content, scan_context_open,
                scan_razor_block_open, scan_context_close]
               scanner lx valid_symbols = Some l \<and>
            valid_symbols CSHARP_COMMENT \<and> context_stack scanner \<noteq> [] \<and>
            lookahead l = ch CHR ''/'' \<and>
            lookahead (razor_advance l) \<noteq> ch CHR ''/'' \<and>
            lookahead (razor_advance l) \<noteq> ch CHR ''*'') \<or>
       (\<exists>l. falls_through
               [scan_text_with_literal_at, scan_html_text_content, scan_context_open,
                scan_razor_block_open, scan_context_close, scan_csharp_comment,
                scan_csharp_preproc]
               scanner lx valid_symbols = Some l \<and>
            valid_symbols SCRIPT_CONTENT \<and> (lookahead l = ch CHR ''<'' \<or> eof l)) \<or>
       (\<exists>l. falls_through
               [scan_text_with_literal_at, scan_html_text_content, scan_context_open,
                scan_razor_block_open, scan_context_close, scan_csharp_comment,
                scan_csharp_preproc, scan_script_content]
               scanner lx valid_symbols = Some l \<and>
            valid_symbols STYLE_CONTENT \<and> (lookahead l = ch CHR ''<'' \<or> eof l)) \<or>
       (\<exists>l. falls_through
               [scan_text_with_literal_at, scan_html_text_content, scan_context_open,
                scan_razor_block_open, scan_context_close, scan_csharp_comment,
                scan_csharp_preproc, scan_script_content, scan_style_content]
               scanner lx valid_symbols = Some l \<and>
            valid_symbols TITLE_CONTENT \<and> (lookahead l = ch CHR ''<'' \<or> eof l)) \<or>
       (\<exists>l. falls_through
               [scan_text_with_literal_at, scan_html_text_content, scan_context_open,
                scan_razor_block_open, scan_context_close, scan_csharp_comment,
                scan_csharp_preproc, scan_script_content, scan_style_content,
                scan_title_content]
               scanner lx valid_symbols = Some l \<and>
            valid_symbols TEXTAREA_CONTENT \<and> (lookahead l = ch CHR ''<'' \<or> eof l)))"
    by (rule decline_sites)
  have a5:
    "((valid_symbols SCRIPT_CONTENT \<or> valid_symbols STYLE_CONTENT \<or>
        valid_symbols TITLE_CONTENT \<or> valid_symbols TEXTAREA_CONTENT) \<longrightarrow>
         (\<exists>b s' l'. razor_families scanner lx valid_symbols = Return b s' l'))"
    using raw_admissible_returns [of valid_symbols scanner lx]
    by (cases "razor_families scanner lx valid_symbols") auto
  have a6:
    "(\<not> valid_symbols HTML_TEXT_CONTENT \<and> \<not> valid_symbols CSHARP_CODE_BLOCK_START \<and>
       \<not> valid_symbols CSHARP_EXPLICIT_EXPR_START \<and> \<not> valid_symbols CSHARP_COMMENT \<and>
       \<not> valid_symbols SCRIPT_CONTENT \<and> \<not> valid_symbols STYLE_CONTENT \<and>
       \<not> valid_symbols TITLE_CONTENT \<and> \<not> valid_symbols TEXTAREA_CONTENT \<longrightarrow>
         (\<exists>s' l'. razor_families scanner lx valid_symbols = Return True s' l') \<or>
         (\<exists>l. razor_families scanner lx valid_symbols = Fallthrough l \<and>
              tree_sitter_razor_external_scanner_scan csharp_scan scanner lx valid_symbols =
                (case csharp_scan (csharp_scanner scanner) l valid_symbols of
                   (b, cs', l') \<Rightarrow> (b, scanner\<lparr>csharp_scanner := cs'\<rparr>, l'))))"
  proof
    assume none: "\<not> valid_symbols HTML_TEXT_CONTENT \<and> \<not> valid_symbols CSHARP_CODE_BLOCK_START \<and>
          \<not> valid_symbols CSHARP_EXPLICIT_EXPR_START \<and> \<not> valid_symbols CSHARP_COMMENT \<and>
          \<not> valid_symbols SCRIPT_CONTENT \<and> \<not> valid_symbols STYLE_CONTENT \<and>
          \<not> valid_symbols TITLE_CONTENT \<and> \<not> valid_symbols TEXTAREA_CONTENT"
    show "(\<exists>s' l'. razor_families scanner lx valid_symbols = Return True s' l') \<or>
      (\<exists>l. razor_families scanner lx valid_symbols = Fallthrough l \<and>
           tree_sitter_razor_external_scanner_scan csharp_scan scanner lx valid_symbols =
             (case csharp_scan (csharp_scanner scanner) l valid_symbols of
                (b, cs', l') \<Rightarrow> (b, scanner\<lparr>csharp_scanner := cs'\<rparr>, l')))"
    proof (cases "razor_families scanner lx valid_symbols")
      case (Return b s' l')
      show ?thesis
      proof (cases b)
        case True
        with Return show ?thesis by simp
      next
        case False
        with Return have "razor_families scanner lx valid_symbols = Return False s' l'" by simp
        from decline_sources [OF this] none show ?thesis by simp
      qed
    next
      case (Fallthrough l)
      then show ?thesis by (simp add: tree_sitter_razor_external_scanner_scan_def)
    qed
  qed
  have a7:
    "((valid_symbols CSHARP_CODE_BLOCK_START \<or> valid_symbols CSHARP_EXPLICIT_EXPR_START) \<and>
       lookahead lx = ch CHR ''@'' \<and>
       \<not> (valid_symbols CSHARP_CODE_BLOCK_START \<and> lookahead (razor_advance lx) = ch CHR ''{'') \<and>
       \<not> (valid_symbols CSHARP_EXPLICIT_EXPR_START \<and> lookahead (razor_advance lx) = ch CHR ''('') \<longrightarrow>
         tree_sitter_razor_external_scanner_scan csharp_scan scanner lx valid_symbols =
           (False, scanner, razor_advance lx))"
    using decline_at_sign [of valid_symbols lx scanner]
    by (simp add: tree_sitter_razor_external_scanner_scan_def)
  have a8:
    "(valid_symbols CSHARP_COMMENT \<and> context_stack scanner \<noteq> [] \<and>
       lookahead lx = ch CHR ''/'' \<and> lookahead (razor_advance lx) \<noteq> ch CHR ''/'' \<and>
       lookahead (razor_advance lx) \<noteq> ch CHR ''*'' \<longrightarrow>
         tree_sitter_razor_external_scanner_scan csharp_scan scanner lx valid_symbols =
           (False, scanner, razor_advance lx))"
    using decline_lone_slash [of valid_symbols scanner lx]
    by (simp add: tree_sitter_razor_external_scanner_scan_def)
  have a9:
    "(eof lx \<and>
       (valid_symbols SCRIPT_CONTENT \<or> valid_symbols STYLE_CONTENT \<or>
        valid_symbols TITLE_CONTENT \<or> valid_symbols TEXTAREA_CONTENT) \<longrightarrow>
         tree_sitter_razor_external_scanner_scan csharp_scan scanner lx valid_symbols =
           (False, scanner, lx))"
    using decline_raw_at_eof [of lx valid_symbols scanner]
    by (simp add: tree_sitter_razor_external_scanner_scan_def)
  have a10:
    "(\<not> valid_symbols TEXT_WITH_LITERAL_AT \<and> valid_symbols HTML_TEXT_CONTENT \<and>
       context_stack scanner = [] \<and>
       (lookahead lx = ch CHR ''e'' \<or> lookahead lx = ch CHR ''c'' \<or> lookahead lx = ch CHR ''f'') \<and>
       is_keyword_run (lookahead lx) (fst (keyword_run 0 [] (mark_end lx)))
         (snd (keyword_run 0 [] (mark_end lx))) \<longrightarrow>
         tree_sitter_razor_external_scanner_scan csharp_scan scanner lx valid_symbols =
           (False, scanner, snd (keyword_run 0 [] (mark_end lx))))"
    using decline_at_keyword [of valid_symbols scanner lx]
    by (simp add: tree_sitter_razor_external_scanner_scan_def)
  from a1 a2 a3 a4 a5 a6 a7 a8 a9 a10 show ?thesis
    by (intro conjI)
qed

text \<open>
  A decline that is not delegated: on \<open>@x\<close> with \<^verbatim>\<open>CSHARP_CODE_BLOCK_START\<close> admissible
  the block that opens a C\# context returns false. The stand-in C\# scanner would have committed its
  kind \<open>0\<close>, at the start of the input as well as after the \<open>@\<close>; the call declines
  and the state of the C\# scanner is untouched.
\<close>

theorem delegation_to_csharp_scanner_counterexample:
  "razor_families \<lparr>csharp_scanner = (0::nat), context_stack = []\<rparr> (lexer_on (codes ''@x''))
     (admissible [CSHARP_CODE_BLOCK_START, 0]) =
   Return False \<lparr>csharp_scanner = 0, context_stack = []\<rparr>
     \<lparr>rest = codes ''x'', pos = 1, tok_start = 0, mark = None, result_symbol = 0\<rparr> \<and>
   tree_sitter_razor_external_scanner_scan sample_csharp_scan
     \<lparr>csharp_scanner = 0, context_stack = []\<rparr> (lexer_on (codes ''@x''))
     (admissible [CSHARP_CODE_BLOCK_START, 0]) =
   (False, \<lparr>csharp_scanner = 0, context_stack = []\<rparr>,
    \<lparr>rest = codes ''x'', pos = 1, tok_start = 0, mark = None, result_symbol = 0\<rparr>) \<and>
   fst (sample_csharp_scan 0 (lexer_on (codes ''@x'')) (admissible [CSHARP_CODE_BLOCK_START, 0])) \<and>
   fst (sample_csharp_scan 0
     \<lparr>rest = codes ''x'', pos = 1, tok_start = 0, mark = None, result_symbol = 0\<rparr>
     (admissible [CSHARP_CODE_BLOCK_START, 0]))"
  by code_simp

text \<open>
  Instances: a call that is delegated, and a decline at each of the four sites. In the
  third the stand-in C\# scanner would have committed on the slash.
\<close>

theorem delegation_to_csharp_scanner_witness:
  "tree_sitter_razor_external_scanner_scan sample_csharp_scan
     \<lparr>csharp_scanner = (0::nat), context_stack = []\<rparr>
     (lexer_on (codes ''// x'')) (admissible [CSHARP_PREPROC, 0]) =
   (True, \<lparr>csharp_scanner = 1, context_stack = []\<rparr>,
    \<lparr>rest = codes ''/ x'', pos = 1, tok_start = 0, mark = None, result_symbol = 0\<rparr>) \<and>
   tree_sitter_razor_external_scanner_scan sample_csharp_scan
     \<lparr>csharp_scanner = (0::nat), context_stack = []\<rparr>
     (lexer_on (codes ''@x'')) (admissible [CSHARP_CODE_BLOCK_START, 0]) =
   (False, \<lparr>csharp_scanner = 0, context_stack = []\<rparr>,
    \<lparr>rest = codes ''x'', pos = 1, tok_start = 0, mark = None, result_symbol = 0\<rparr>) \<and>
   tree_sitter_razor_external_scanner_scan sample_csharp_scan
     \<lparr>csharp_scanner = (0::nat), context_stack = [CONTEXT_CSHARP_BRACE]\<rparr>
     (lexer_on (codes ''/ x'')) (admissible [CSHARP_COMMENT, 0]) =
   (False, \<lparr>csharp_scanner = 0, context_stack = [CONTEXT_CSHARP_BRACE]\<rparr>,
    \<lparr>rest = codes '' x'', pos = 1, tok_start = 0, mark = None, result_symbol = 0\<rparr>) \<and>
   fst (sample_csharp_scan 0 (lexer_on (codes ''/ x'')) (admissible [CSHARP_COMMENT, 0])) \<and>
   tree_sitter_razor_external_scanner_scan sample_csharp_scan
     \<lparr>csharp_scanner = (0::nat), context_stack = []\<rparr>
     (lexer_on []) (admissible [SCRIPT_CONTENT, 0]) =
   (False, \<lparr>csharp_scanner = 0, context_stack = []\<rparr>, lexer_on []) \<and>
   tree_sitter_razor_external_scanner_scan sample_csharp_scan
     \<lparr>csharp_scanner = (0::nat), context_stack = []\<rparr>
     (lexer_on (codes ''else foo'')) (admissible [HTML_TEXT_CONTENT, 0]) =
   (False, \<lparr>csharp_scanner = 0, context_stack = []\<rparr>,
    \<lparr>rest = codes '' foo'', pos = 4, tok_start = 0, mark = Some 0, result_symbol = 0\<rparr>)"
proof -
  have delegated_premise:
    "razor_families \<lparr>csharp_scanner = (0::nat), context_stack = []\<rparr> (lexer_on (codes ''// x''))
        (admissible [CSHARP_PREPROC, 0]) =
      Fallthrough (lexer_on (codes ''// x''))"
    by code_simp
  have delegated_sub:
    "sample_csharp_scan 0 (lexer_on (codes ''// x'')) (admissible [CSHARP_PREPROC, 0]) =
      (True, 1, \<lparr>rest = codes ''/ x'', pos = 1, tok_start = 0, mark = None, result_symbol = 0\<rparr>)"
    by code_simp
  have delegated:
    "tree_sitter_razor_external_scanner_scan sample_csharp_scan
       \<lparr>csharp_scanner = (0::nat), context_stack = []\<rparr>
       (lexer_on (codes ''// x'')) (admissible [CSHARP_PREPROC, 0]) =
     (True, \<lparr>csharp_scanner = 1, context_stack = []\<rparr>,
      \<lparr>rest = codes ''/ x'', pos = 1, tok_start = 0, mark = None, result_symbol = 0\<rparr>)"
    using delegation_to_csharp_scanner [where csharp_scan = sample_csharp_scan
        and scanner = "\<lparr>csharp_scanner = (0::nat), context_stack = []\<rparr>"
        and lx = "lexer_on (codes ''// x'')"
        and valid_symbols = "admissible [CSHARP_PREPROC, 0]"
        and l = "lexer_on (codes ''// x'')",
        THEN conjunct2, THEN conjunct1, THEN mp, OF delegated_premise]
    by (simp add: delegated_sub)
  have at_sign_premise:
    "(admissible [CSHARP_CODE_BLOCK_START, 0] CSHARP_CODE_BLOCK_START \<or> admissible [CSHARP_CODE_BLOCK_START, 0] CSHARP_EXPLICIT_EXPR_START) \<and>
      lookahead (lexer_on (codes ''@x'')) = ch CHR ''@'' \<and>
      \<not> (admissible [CSHARP_CODE_BLOCK_START, 0] CSHARP_CODE_BLOCK_START \<and> lookahead (razor_advance (lexer_on (codes ''@x''))) = ch CHR ''{'') \<and>
      \<not> (admissible [CSHARP_CODE_BLOCK_START, 0] CSHARP_EXPLICIT_EXPR_START \<and> lookahead (razor_advance (lexer_on (codes ''@x''))) = ch CHR ''('')"
    by code_simp
  have at_sign_lexer:
    "razor_advance (lexer_on (codes ''@x'')) =
      \<lparr>rest = codes ''x'', pos = 1, tok_start = 0, mark = None, result_symbol = 0\<rparr>"
    by code_simp
  have at_sign:
    "tree_sitter_razor_external_scanner_scan sample_csharp_scan
       \<lparr>csharp_scanner = (0::nat), context_stack = []\<rparr>
       (lexer_on (codes ''@x'')) (admissible [CSHARP_CODE_BLOCK_START, 0]) =
     (False, \<lparr>csharp_scanner = 0, context_stack = []\<rparr>,
      \<lparr>rest = codes ''x'', pos = 1, tok_start = 0, mark = None, result_symbol = 0\<rparr>)"
    using delegation_to_csharp_scanner [where csharp_scan = sample_csharp_scan
        and scanner = "\<lparr>csharp_scanner = (0::nat), context_stack = []\<rparr>"
        and lx = "lexer_on (codes ''@x'')"
        and valid_symbols = "admissible [CSHARP_CODE_BLOCK_START, 0]",
        THEN conjunct2, THEN conjunct2, THEN conjunct2, THEN conjunct2, THEN conjunct2,
        THEN conjunct2, THEN conjunct1, THEN mp, OF at_sign_premise]
    by (simp add: at_sign_lexer)
  have lone_slash_premise:
    "admissible [CSHARP_COMMENT, 0] CSHARP_COMMENT \<and> context_stack \<lparr>csharp_scanner = (0::nat), context_stack = [CONTEXT_CSHARP_BRACE]\<rparr> \<noteq> [] \<and>
      lookahead (lexer_on (codes ''/ x'')) = ch CHR ''/'' \<and> lookahead (razor_advance (lexer_on (codes ''/ x''))) \<noteq> ch CHR ''/'' \<and>
      lookahead (razor_advance (lexer_on (codes ''/ x''))) \<noteq> ch CHR ''*''"
    by code_simp
  have lone_slash_lexer:
    "razor_advance (lexer_on (codes ''/ x'')) =
      \<lparr>rest = codes '' x'', pos = 1, tok_start = 0, mark = None, result_symbol = 0\<rparr>"
    by code_simp
  have lone_slash:
    "tree_sitter_razor_external_scanner_scan sample_csharp_scan
       \<lparr>csharp_scanner = (0::nat), context_stack = [CONTEXT_CSHARP_BRACE]\<rparr>
       (lexer_on (codes ''/ x'')) (admissible [CSHARP_COMMENT, 0]) =
     (False, \<lparr>csharp_scanner = 0, context_stack = [CONTEXT_CSHARP_BRACE]\<rparr>,
      \<lparr>rest = codes '' x'', pos = 1, tok_start = 0, mark = None, result_symbol = 0\<rparr>)"
    using delegation_to_csharp_scanner [where csharp_scan = sample_csharp_scan
        and scanner = "\<lparr>csharp_scanner = (0::nat), context_stack = [CONTEXT_CSHARP_BRACE]\<rparr>"
        and lx = "lexer_on (codes ''/ x'')"
        and valid_symbols = "admissible [CSHARP_COMMENT, 0]",
        THEN conjunct2, THEN conjunct2, THEN conjunct2, THEN conjunct2, THEN conjunct2,
        THEN conjunct2, THEN conjunct2, THEN conjunct1, THEN mp, OF lone_slash_premise]
    by (simp add: lone_slash_lexer)
  have would_commit:
    "fst (sample_csharp_scan 0 (lexer_on (codes ''/ x'')) (admissible [CSHARP_COMMENT, 0]))"
    by code_simp
  have raw_at_eof_premise:
    "eof (lexer_on []) \<and>
      (admissible [SCRIPT_CONTENT, 0] SCRIPT_CONTENT \<or> admissible [SCRIPT_CONTENT, 0] STYLE_CONTENT \<or>
       admissible [SCRIPT_CONTENT, 0] TITLE_CONTENT \<or> admissible [SCRIPT_CONTENT, 0] TEXTAREA_CONTENT)"
    by code_simp
  have raw_at_eof:
    "tree_sitter_razor_external_scanner_scan sample_csharp_scan
       \<lparr>csharp_scanner = (0::nat), context_stack = []\<rparr>
       (lexer_on []) (admissible [SCRIPT_CONTENT, 0]) =
     (False, \<lparr>csharp_scanner = 0, context_stack = []\<rparr>, lexer_on [])"
    using delegation_to_csharp_scanner [where csharp_scan = sample_csharp_scan
        and scanner = "\<lparr>csharp_scanner = (0::nat), context_stack = []\<rparr>"
        and lx = "lexer_on []"
        and valid_symbols = "admissible [SCRIPT_CONTENT, 0]",
        THEN conjunct2, THEN conjunct2, THEN conjunct2, THEN conjunct2, THEN conjunct2,
        THEN conjunct2, THEN conjunct2, THEN conjunct2, THEN conjunct1, THEN mp, OF raw_at_eof_premise]
    by simp
  have keyword_premise:
    "\<not> admissible [HTML_TEXT_CONTENT, 0] TEXT_WITH_LITERAL_AT \<and> admissible [HTML_TEXT_CONTENT, 0] HTML_TEXT_CONTENT \<and>
      context_stack \<lparr>csharp_scanner = (0::nat), context_stack = []\<rparr> = [] \<and>
      (lookahead (lexer_on (codes ''else foo'')) = ch CHR ''e'' \<or> lookahead (lexer_on (codes ''else foo'')) = ch CHR ''c'' \<or> lookahead (lexer_on (codes ''else foo'')) = ch CHR ''f'') \<and>
      is_keyword_run (lookahead (lexer_on (codes ''else foo''))) (fst (keyword_run 0 [] (mark_end (lexer_on (codes ''else foo'')))))
        (snd (keyword_run 0 [] (mark_end (lexer_on (codes ''else foo'')))))"
    by code_simp
  have keyword_lexer:
    "snd (keyword_run 0 [] (mark_end (lexer_on (codes ''else foo'')))) =
      \<lparr>rest = codes '' foo'', pos = 4, tok_start = 0, mark = Some 0, result_symbol = 0\<rparr>"
    by code_simp
  have keyword:
    "tree_sitter_razor_external_scanner_scan sample_csharp_scan
       \<lparr>csharp_scanner = (0::nat), context_stack = []\<rparr>
       (lexer_on (codes ''else foo'')) (admissible [HTML_TEXT_CONTENT, 0]) =
     (False, \<lparr>csharp_scanner = 0, context_stack = []\<rparr>,
      \<lparr>rest = codes '' foo'', pos = 4, tok_start = 0, mark = Some 0, result_symbol = 0\<rparr>)"
    using delegation_to_csharp_scanner [where csharp_scan = sample_csharp_scan
        and scanner = "\<lparr>csharp_scanner = (0::nat), context_stack = []\<rparr>"
        and lx = "lexer_on (codes ''else foo'')"
        and valid_symbols = "admissible [HTML_TEXT_CONTENT, 0]",
        THEN conjunct2, THEN conjunct2, THEN conjunct2, THEN conjunct2, THEN conjunct2,
        THEN conjunct2, THEN conjunct2, THEN conjunct2, THEN conjunct2, THEN mp, OF keyword_premise]
    by (simp add: keyword_lexer)
  from delegated at_sign lone_slash would_commit raw_at_eof keyword show ?thesis
    by (intro conjI)
qed

section \<open>Markup text and the keywords at the start of a line\<close>

lemma html_loop_else_foo:
  "html_text_loop False True (lexer_on (codes ''else foo'')) =
     (False, True, \<lparr>rest = codes '' foo'', pos = 4, tok_start = 0, mark = Some 0, result_symbol = 0\<rparr>)"
  by code_simp

lemma html_loop_x_else_foo:
  "html_text_loop False True (lexer_on (codes ''x else foo'')) =
     (True, False, \<lparr>rest = [], pos = 10, tok_start = 0, mark = Some 10, result_symbol = 0\<rparr>)"
  by code_simp

lemma html_loop_x_newline_else_foo:
  "html_text_loop False True (lexer_on (codes (''x'' @ [CHR 0x0A] @ ''else foo''))) =
     (True, True, \<lparr>rest = codes '' foo'', pos = 6, tok_start = 0, mark = Some 2, result_symbol = 0\<rparr>)"
  by code_simp

lemma html_block_result:
  assumes "valid_symbols HTML_TEXT_CONTENT" and "context_stack scanner = []"
    and "html_text_loop False True lx = (has_content, found_keyword, lx')"
    and "has_content \<or> found_keyword"
  shows "scan_html_text_content scanner lx valid_symbols =
           (if has_content then Return True scanner (lx'\<lparr>result_symbol := HTML_TEXT_CONTENT\<rparr>)
            else Return False scanner lx')"
  using assms
  by (auto simp: scan_html_text_content_def in_csharp_context_def commit_def)

text \<open>
  Claim C4, as amended. Let \<^verbatim>\<open>HTML_TEXT_CONTENT\<close> be admissible and the context
  stack empty. On the input \<open>else foo\<close> the markup text block declines, having found the
  keyword with no content before it. On the input \<open>x else foo\<close> it commits
  \<^verbatim>\<open>HTML_TEXT_CONTENT\<close> covering the whole input: after the \<open>x\<close> the lexer is no
  longer at the start of a line, and \<open>else\<close> is not looked for. The keyword is held back
  where it starts a line: on \<open>x\<close>, a line feed and \<open>else foo\<close> the token covers the
  \<open>x\<close> and the line feed only. When \<^verbatim>\<open>TEXT_WITH_LITERAL_AT\<close> is not admissible, so
  that the markup text block is the first to read the input, these are the results of
  the whole call.
\<close>

theorem keyword_held_back_at_line_start:
  assumes html: "valid_symbols HTML_TEXT_CONTENT"
    and empty: "context_stack scanner = []"
  shows "scan_html_text_content scanner (lexer_on (codes ''else foo'')) valid_symbols =
           Return False scanner
             \<lparr>rest = codes '' foo'', pos = 4, tok_start = 0, mark = Some 0, result_symbol = 0\<rparr> \<and>
         scan_html_text_content scanner (lexer_on (codes ''x else foo'')) valid_symbols =
           Return True scanner
             \<lparr>rest = [], pos = 10, tok_start = 0, mark = Some 10,
              result_symbol = HTML_TEXT_CONTENT\<rparr> \<and>
         token_text (codes ''x else foo'')
           \<lparr>rest = [], pos = 10, tok_start = 0, mark = Some 10,
            result_symbol = HTML_TEXT_CONTENT\<rparr> = codes ''x else foo'' \<and>
         scan_html_text_content scanner
             (lexer_on (codes (''x'' @ [CHR 0x0A] @ ''else foo''))) valid_symbols =
           Return True scanner
             \<lparr>rest = codes '' foo'', pos = 6, tok_start = 0, mark = Some 2,
              result_symbol = HTML_TEXT_CONTENT\<rparr> \<and>
         token_text (codes (''x'' @ [CHR 0x0A] @ ''else foo''))
           \<lparr>rest = codes '' foo'', pos = 6, tok_start = 0, mark = Some 2,
            result_symbol = HTML_TEXT_CONTENT\<rparr> = codes (''x'' @ [CHR 0x0A]) \<and>
         (\<not> valid_symbols TEXT_WITH_LITERAL_AT \<longrightarrow>
            tree_sitter_razor_external_scanner_scan csharp_scan scanner
              (lexer_on (codes ''else foo'')) valid_symbols =
            (False, scanner,
             \<lparr>rest = codes '' foo'', pos = 4, tok_start = 0, mark = Some 0, result_symbol = 0\<rparr>) \<and>
            tree_sitter_razor_external_scanner_scan csharp_scan scanner
              (lexer_on (codes ''x else foo'')) valid_symbols =
            (True, scanner,
             \<lparr>rest = [], pos = 10, tok_start = 0, mark = Some 10,
              result_symbol = HTML_TEXT_CONTENT\<rparr>) \<and>
            tree_sitter_razor_external_scanner_scan csharp_scan scanner
              (lexer_on (codes (''x'' @ [CHR 0x0A] @ ''else foo''))) valid_symbols =
            (True, scanner,
             \<lparr>rest = codes '' foo'', pos = 6, tok_start = 0, mark = Some 2,
              result_symbol = HTML_TEXT_CONTENT\<rparr>))"
proof -
  note block = html_block_result [where valid_symbols = valid_symbols, OF html empty]
  have blocks:
    "scan_html_text_content scanner (lexer_on (codes ''else foo'')) valid_symbols =
       Return False scanner
         \<lparr>rest = codes '' foo'', pos = 4, tok_start = 0, mark = Some 0, result_symbol = 0\<rparr>"
    "scan_html_text_content scanner (lexer_on (codes ''x else foo'')) valid_symbols =
       Return True scanner
         \<lparr>rest = [], pos = 10, tok_start = 0, mark = Some 10, result_symbol = HTML_TEXT_CONTENT\<rparr>"
    "scan_html_text_content scanner
         (lexer_on (codes (''x'' @ [CHR 0x0A] @ ''else foo''))) valid_symbols =
       Return True scanner
         \<lparr>rest = codes '' foo'', pos = 6, tok_start = 0, mark = Some 2,
          result_symbol = HTML_TEXT_CONTENT\<rparr>"
    using block [OF html_loop_else_foo] block [OF html_loop_x_else_foo]
      block [OF html_loop_x_newline_else_foo]
    by simp_all
  have texts: "token_text (codes ''x else foo'')
           \<lparr>rest = [], pos = 10, tok_start = 0, mark = Some 10,
            result_symbol = HTML_TEXT_CONTENT\<rparr> = codes ''x else foo''"
    "token_text (codes (''x'' @ [CHR 0x0A] @ ''else foo''))
           \<lparr>rest = codes '' foo'', pos = 6, tok_start = 0, mark = Some 2,
            result_symbol = HTML_TEXT_CONTENT\<rparr> = codes (''x'' @ [CHR 0x0A])"
    by (simp_all add: token_text_def token_end_def codes_def)
  have whole: "tree_sitter_razor_external_scanner_scan csharp_scan scanner lx valid_symbols =
      (b, scanner, lx')"
    if "\<not> valid_symbols TEXT_WITH_LITERAL_AT"
      and "scan_html_text_content scanner lx valid_symbols = Return b scanner lx'" for lx b lx'
    using that
    by (simp add: tree_sitter_razor_external_scanner_scan_def razor_families_def
        scan_text_with_literal_at_def or_else_def)
  show ?thesis
    using blocks texts whole [OF _ blocks(1)] whole [OF _ blocks(2)] whole [OF _ blocks(3)]
    by simp
qed

text \<open>
  With only \<^verbatim>\<open>HTML_TEXT_CONTENT\<close> admissible, the token committed on \<open>x else foo\<close> is
  the whole input and not \<open>x\<close> and a space.
\<close>

theorem keyword_held_back_at_line_start_counterexample:
  "tree_sitter_razor_external_scanner_scan sample_csharp_scan
     \<lparr>csharp_scanner = 0, context_stack = []\<rparr> (lexer_on (codes ''x else foo''))
     (admissible [HTML_TEXT_CONTENT]) =
   (True, \<lparr>csharp_scanner = 0, context_stack = []\<rparr>,
    \<lparr>rest = [], pos = 10, tok_start = 0, mark = Some 10, result_symbol = HTML_TEXT_CONTENT\<rparr>) \<and>
   token_text (codes ''x else foo'')
     \<lparr>rest = [], pos = 10, tok_start = 0, mark = Some 10, result_symbol = HTML_TEXT_CONTENT\<rparr> =
   codes ''x else foo'' \<and>
   codes ''x else foo'' \<noteq> codes ''x ''"
  by code_simp

text \<open>An instance with the stand-in C\# scanner, whose kind is admissible as well.\<close>

theorem keyword_held_back_at_line_start_witness:
  "scan_html_text_content \<lparr>csharp_scanner = (0::nat), context_stack = []\<rparr>
     (lexer_on (codes ''else foo'')) (admissible [HTML_TEXT_CONTENT, 0]) =
   Return False \<lparr>csharp_scanner = 0, context_stack = []\<rparr>
     \<lparr>rest = codes '' foo'', pos = 4, tok_start = 0, mark = Some 0, result_symbol = 0\<rparr> \<and>
   tree_sitter_razor_external_scanner_scan sample_csharp_scan
     \<lparr>csharp_scanner = 0, context_stack = []\<rparr> (lexer_on (codes ''else foo''))
     (admissible [HTML_TEXT_CONTENT, 0]) =
   (False, \<lparr>csharp_scanner = 0, context_stack = []\<rparr>,
    \<lparr>rest = codes '' foo'', pos = 4, tok_start = 0, mark = Some 0, result_symbol = 0\<rparr>) \<and>
   tree_sitter_razor_external_scanner_scan sample_csharp_scan
     \<lparr>csharp_scanner = 0, context_stack = []\<rparr>
     (lexer_on (codes (''x'' @ [CHR 0x0A] @ ''else foo''))) (admissible [HTML_TEXT_CONTENT, 0]) =
   (True, \<lparr>csharp_scanner = 0, context_stack = []\<rparr>,
    \<lparr>rest = codes '' foo'', pos = 6, tok_start = 0, mark = Some 2,
     result_symbol = HTML_TEXT_CONTENT\<rparr>)"
  using keyword_held_back_at_line_start [where valid_symbols = "admissible [HTML_TEXT_CONTENT, 0]"
      and scanner = "\<lparr>csharp_scanner = 0, context_stack = []\<rparr>"
      and csharp_scan = sample_csharp_scan]
  by (simp add: token_defs)

section \<open>Raw content stops before the closing tag\<close>

lemma tag_match_variant:
  assumes "list_all2 (\<lambda>c t. c = t \<or> c = t - 32) w (drop i tag)" and "rest lx = w @ r"
    and "i \<le> length tag"
  shows "tag_match tag i lx = (True, length tag, lx\<lparr>rest := r, pos := pos lx + length w\<rparr>)"
  using assms
proof (induction w arbitrary: i lx)
  case Nil
  then have i: "i = length tag" by simp
  then have "tag_match tag i lx = (True, i, lx)"
    by (subst tag_match.simps) simp
  then show ?case using Nil.prems(2) i by simp
next
  case (Cons c cs)
  from Cons.prems(1) obtain t ts where d: "drop i tag = t # ts"
    and c: "c = t \<or> c = t - 32" and cs: "list_all2 (\<lambda>c t. c = t \<or> c = t - 32) cs ts"
    by (auto simp: list_all2_Cons1)
  from d have i: "i < length tag" by (cases "i < length tag") simp_all
  from d i have t: "tag ! i = t" by (metis nth_via_drop)
  from d have ts: "drop (Suc i) tag = ts"
    by (metis drop_Suc tl_drop list.sel(3))
  have la: "lookahead lx = c" using Cons.prems(2) by (simp add: lookahead_def)
  have r: "rest lx = c # (cs @ r)" using Cons.prems(2) by simp
  have "tag_match tag i lx = tag_match tag (i + 1) (razor_advance lx)"
    using i la t c by (subst tag_match.simps) (auto simp: Let_def)
  also have "\<dots> = (True, length tag,
      (razor_advance lx)\<lparr>rest := r, pos := pos (razor_advance lx) + length cs\<rparr>)"
    using i by (intro Cons.IH) (simp_all add: ts cs razor_advance_Cons [OF r])
  finally show ?case by (simp add: razor_advance_Cons [OF r])
qed

lemma raw_content_loop_run:
  assumes content: "\<forall>c\<in>set content. c \<noteq> ch CHR ''<''"
    and variant: "list_all2 (\<lambda>c t. c = t \<or> c = t - 32) w tag"
    and n: "n = length tag"
    and r: "rest lx = content @ ch CHR ''<'' # ch CHR ''/'' # w @ r"
  shows "raw_content_loop tag n has_content lx =
           (has_content \<or> content \<noteq> [],
            lx\<lparr>rest := r, pos := pos lx + length content + 2 + length w,
               mark := Some (pos lx + length content)\<rparr>)"
  using content r
proof (induction content arbitrary: lx has_content)
  case Nil
  have r0: "rest lx = ch CHR ''<'' # ch CHR ''/'' # w @ r" using Nil.prems by simp
  have r1: "rest (mark_end lx) = ch CHR ''<'' # (ch CHR ''/'' # w @ r)" using r0 by simp
  define lx1 where "lx1 = razor_advance (mark_end lx)"
  have lx1: "lx1 = lx\<lparr>rest := ch CHR ''/'' # w @ r, pos := Suc (pos lx), mark := Some (pos lx)\<rparr>"
    unfolding lx1_def razor_advance_Cons [OF r1] by (simp add: mark_end_def)
  have r2: "rest lx1 = ch CHR ''/'' # (w @ r)" by (simp add: lx1)
  define lx2 where "lx2 = razor_advance lx1"
  have lx2: "lx2 = lx\<lparr>rest := w @ r, pos := pos lx + 2, mark := Some (pos lx)\<rparr>"
    unfolding lx2_def razor_advance_Cons [OF r2] by (simp add: lx1)
  have m: "tag_match tag 0 lx2 =
      (True, length tag, lx\<lparr>rest := r, pos := pos lx + 2 + length w, mark := Some (pos lx)\<rparr>)"
    using tag_match_variant [where tag = tag and i = 0 and w = w and r = r and lx = lx2] variant
    by (simp add: lx2)
  have "\<not> eof lx" "lookahead lx = ch CHR ''<''" "lookahead lx1 = ch CHR ''/''"
    using r0 r2 by (simp_all add: eof_def lookahead_def)
  then show ?case
    by (subst raw_content_loop.simps)
       (simp add: lx1_def [symmetric] lx2_def [symmetric] m n Let_def)
next
  case (Cons c cs)
  have r0: "rest lx = c # (cs @ ch CHR ''<'' # ch CHR ''/'' # w @ r)" using Cons.prems by simp
  have c: "c \<noteq> ch CHR ''<''" using Cons.prems by simp
  define lx1 where "lx1 = mark_end (razor_advance lx)"
  have lx1: "lx1 = lx\<lparr>rest := cs @ ch CHR ''<'' # ch CHR ''/'' # w @ r, pos := Suc (pos lx),
      mark := Some (Suc (pos lx))\<rparr>"
    unfolding lx1_def razor_advance_Cons [OF r0] by (simp add: mark_end_def)
  have "\<not> eof lx" "lookahead lx = c"
    using r0 by (simp_all add: eof_def lookahead_def)
  then have "raw_content_loop tag n has_content lx = raw_content_loop tag n True lx1"
    using c by (subst raw_content_loop.simps) (simp add: lx1_def)
  also have "\<dots> = (True \<or> cs \<noteq> [],
      lx1\<lparr>rest := r, pos := pos lx1 + length cs + 2 + length w,
          mark := Some (pos lx1 + length cs)\<rparr>)"
    using Cons.prems by (intro Cons.IH) (simp_all add: lx1)
  finally show ?case by (simp add: lx1)
qed


lemma before_raw_at_letter:
  assumes la: "lookahead lx = ch CHR ''a''"
    and markup: "context_stack scanner \<noteq> [] \<or>
      (\<not> valid_symbols TEXT_WITH_LITERAL_AT \<and> \<not> valid_symbols HTML_TEXT_CONTENT)"
  shows "scan_text_with_literal_at scanner lx valid_symbols = Fallthrough lx"
    and "scan_html_text_content scanner lx valid_symbols = Fallthrough lx"
    and "scan_context_open scanner lx valid_symbols = Fallthrough lx"
    and "scan_razor_block_open scanner lx valid_symbols = Fallthrough lx"
    and "scan_context_close scanner lx valid_symbols = Fallthrough lx"
    and "scan_csharp_comment scanner lx valid_symbols = Fallthrough lx"
    and "scan_csharp_preproc scanner lx valid_symbols = Fallthrough lx"
proof -
  show "scan_text_with_literal_at scanner lx valid_symbols = Fallthrough lx"
    and "scan_html_text_content scanner lx valid_symbols = Fallthrough lx"
    using markup
    by (auto simp: scan_text_with_literal_at_def scan_html_text_content_def in_csharp_context_def)
  have skip: "skip_whitespace lx = lx"
    using la by (intro skip_whitespace_none) (simp add: iswspace_def)
  show "scan_context_open scanner lx valid_symbols = Fallthrough lx"
    and "scan_razor_block_open scanner lx valid_symbols = Fallthrough lx"
    and "scan_context_close scanner lx valid_symbols = Fallthrough lx"
    and "scan_csharp_comment scanner lx valid_symbols = Fallthrough lx"
    and "scan_csharp_preproc scanner lx valid_symbols = Fallthrough lx"
    using la
    by (simp_all add: scan_context_open_def scan_razor_block_open_def scan_context_close_def
        scan_csharp_comment_def scan_csharp_preproc_def skip)
qed

lemma raw_content_commit:
  assumes "valid_symbols kind" and "lookahead lx \<noteq> ch CHR ''<''"
    and "raw_content_loop tag n False lx = (True, lx')"
  shows "scan_raw_content kind tag n lower upper scanner lx valid_symbols =
           Return True scanner (lx'\<lparr>result_symbol := kind\<rparr>)"
  using assms by (simp add: scan_raw_content_def commit_def)

lemma length_codes: "length (codes s) = length s"
  by (simp add: codes_def)

text \<open>
  Claim C6. For each raw-content block, with its tag name \<open>script\<close>, \<open>style\<close>,
  \<open>title\<close> or \<open>textarea\<close>: let \<open>w\<close> be any case variant of the tag name (each
  character is the letter of the name or that letter minus 32, its upper case). On the
  input \<open>abc</\<close>, \<open>w\<close>, \<open>>rest\<close> the block commits its kind; the token is exactly
  \<open>abc\<close> and its marked end, position 3, is just before the \<open><\<close> of the closing tag.
  This is also the result of the whole call when the block is the one that reads the
  input: its kind is the only admissible raw-content kind, and the two markup text blocks
  do not run (the context stack is not empty, or their kinds are not admissible).
\<close>

theorem raw_content_stops_before_closing_tag:
  fixes block :: "'cs RazorScanner \<Rightarrow> lexer \<Rightarrow> (nat \<Rightarrow> bool) \<Rightarrow> 'cs outcome"
  assumes inst: "(kind, tag, block) = (SCRIPT_CONTENT, ''script'', scan_script_content) \<or>
      (kind, tag, block) = (STYLE_CONTENT, ''style'', scan_style_content) \<or>
      (kind, tag, block) = (TITLE_CONTENT, ''title'', scan_title_content) \<or>
      (kind, tag, block) = (TEXTAREA_CONTENT, ''textarea'', scan_textarea_content)"
    and variant: "list_all2 (\<lambda>c t. c = t \<or> c = t - 32) w (codes tag)"
    and valid: "valid_symbols kind"
  shows "block scanner (lexer_on (codes ''abc</'' @ w @ codes ''>rest'')) valid_symbols =
           Return True scanner
             \<lparr>rest = codes ''>rest'', pos = 5 + length w, tok_start = 0, mark = Some 3,
              result_symbol = kind\<rparr> \<and>
         token_text (codes ''abc</'' @ w @ codes ''>rest'')
           \<lparr>rest = codes ''>rest'', pos = 5 + length w, tok_start = 0, mark = Some 3,
            result_symbol = kind\<rparr> = codes ''abc'' \<and>
         token_end \<lparr>rest = codes ''>rest'', pos = 5 + length w, tok_start = 0, mark = Some 3,
            result_symbol = kind\<rparr> = 3 \<and>
         ((\<forall>k. (k = SCRIPT_CONTENT \<or> k = STYLE_CONTENT \<or> k = TITLE_CONTENT \<or>
                 k = TEXTAREA_CONTENT) \<and> valid_symbols k \<longrightarrow> k = kind) \<and>
          (context_stack scanner \<noteq> [] \<or>
           (\<not> valid_symbols TEXT_WITH_LITERAL_AT \<and> \<not> valid_symbols HTML_TEXT_CONTENT)) \<longrightarrow>
            tree_sitter_razor_external_scanner_scan csharp_scan scanner
              (lexer_on (codes ''abc</'' @ w @ codes ''>rest'')) valid_symbols =
            (True, scanner,
             \<lparr>rest = codes ''>rest'', pos = 5 + length w, tok_start = 0, mark = Some 3,
              result_symbol = kind\<rparr>))"
proof -
  define lx0 where "lx0 = lexer_on (codes ''abc</'' @ w @ codes ''>rest'')"
  define lx' where "lx' = \<lparr>rest = codes ''>rest'', pos = 5 + length w, tok_start = 0,
    mark = Some 3, result_symbol = 0\<rparr>"
  have la: "lookahead lx0 = ch CHR ''a''"
    by (simp add: lx0_def lexer_on_def lookahead_def codes_def)
  have r: "rest lx0 = codes ''abc'' @ ch CHR ''<'' # ch CHR ''/'' # w @ codes ''>rest''"
    by (simp add: lx0_def lexer_on_def codes_def)
  have content: "\<forall>c\<in>set (codes ''abc''). c \<noteq> ch CHR ''<''"
    by (simp add: codes_def)
  have "raw_content_loop (codes tag) (length (codes tag)) False lx0 =
      (False \<or> codes ''abc'' \<noteq> [],
       lx0\<lparr>rest := codes ''>rest'', pos := pos lx0 + length (codes ''abc'') + 2 + length w,
           mark := Some (pos lx0 + length (codes ''abc''))\<rparr>)"
    by (rule raw_content_loop_run [OF content variant refl r])
  also have "\<dots> = (True, lx')"
    by (simp add: lx0_def lx'_def lexer_on_def length_codes) (simp add: codes_def)
  finally have loop: "raw_content_loop (codes tag) (length tag) False lx0 = (True, lx')"
    by (simp add: length_codes)
  have lt: "lookahead lx0 \<noteq> ch CHR ''<''" using la by simp
  have block: "block scanner lx0 valid_symbols = Return True scanner (lx'\<lparr>result_symbol := kind\<rparr>)"
    using inst
  proof (elim disjE)
    assume k: "(kind, tag, block) = (SCRIPT_CONTENT, ''script'', scan_script_content)"
    then have t: "tag = ''script''" by simp
    have len: "length ''script'' = 6" by simp
    from loop have l: "raw_content_loop (codes ''script'') 6 False lx0 = (True, lx')"
      unfolding t len .
    from k valid have v: "valid_symbols SCRIPT_CONTENT" by simp
    have "scan_script_content scanner lx0 valid_symbols =
        Return True scanner (lx'\<lparr>result_symbol := SCRIPT_CONTENT\<rparr>)"
      unfolding scan_script_content_def
      by (rule raw_content_commit [where valid_symbols = valid_symbols, OF v lt l])
    with k show ?thesis by simp
  next
    assume k: "(kind, tag, block) = (STYLE_CONTENT, ''style'', scan_style_content)"
    then have t: "tag = ''style''" by simp
    have len: "length ''style'' = 5" by simp
    from loop have l: "raw_content_loop (codes ''style'') 5 False lx0 = (True, lx')"
      unfolding t len .
    from k valid have v: "valid_symbols STYLE_CONTENT" by simp
    have "scan_style_content scanner lx0 valid_symbols =
        Return True scanner (lx'\<lparr>result_symbol := STYLE_CONTENT\<rparr>)"
      unfolding scan_style_content_def
      by (rule raw_content_commit [where valid_symbols = valid_symbols, OF v lt l])
    with k show ?thesis by simp
  next
    assume k: "(kind, tag, block) = (TITLE_CONTENT, ''title'', scan_title_content)"
    then have t: "tag = ''title''" by simp
    have len: "length ''title'' = 5" by simp
    from loop have l: "raw_content_loop (codes ''title'') 5 False lx0 = (True, lx')"
      unfolding t len .
    from k valid have v: "valid_symbols TITLE_CONTENT" by simp
    have "scan_title_content scanner lx0 valid_symbols =
        Return True scanner (lx'\<lparr>result_symbol := TITLE_CONTENT\<rparr>)"
      unfolding scan_title_content_def
      by (rule raw_content_commit [where valid_symbols = valid_symbols, OF v lt l])
    with k show ?thesis by simp
  next
    assume k: "(kind, tag, block) = (TEXTAREA_CONTENT, ''textarea'', scan_textarea_content)"
    then have t: "tag = ''textarea''" by simp
    have len: "length ''textarea'' = 8" by simp
    from loop have l: "raw_content_loop (codes ''textarea'') 8 False lx0 = (True, lx')"
      unfolding t len .
    from k valid have v: "valid_symbols TEXTAREA_CONTENT" by simp
    have "scan_textarea_content scanner lx0 valid_symbols =
        Return True scanner (lx'\<lparr>result_symbol := TEXTAREA_CONTENT\<rparr>)"
      unfolding scan_textarea_content_def
      by (rule raw_content_commit [where valid_symbols = valid_symbols, OF v lt l])
    with k show ?thesis by simp
  qed
  have whole: "tree_sitter_razor_external_scanner_scan csharp_scan scanner lx0 valid_symbols =
      (True, scanner, lx'\<lparr>result_symbol := kind\<rparr>)"
    if only: "\<forall>k. (k = SCRIPT_CONTENT \<or> k = STYLE_CONTENT \<or> k = TITLE_CONTENT \<or>
                 k = TEXTAREA_CONTENT) \<and> valid_symbols k \<longrightarrow> k = kind"
      and markup: "context_stack scanner \<noteq> [] \<or>
           (\<not> valid_symbols TEXT_WITH_LITERAL_AT \<and> \<not> valid_symbols HTML_TEXT_CONTENT)"
  proof -
    note before = before_raw_at_letter [where valid_symbols = valid_symbols, OF la markup]
    have "razor_families scanner lx0 valid_symbols =
        Return True scanner (lx'\<lparr>result_symbol := kind\<rparr>)"
      using inst
    proof (elim disjE)
      assume k: "(kind, tag, block) = (SCRIPT_CONTENT, ''script'', scan_script_content)"
      with block show ?thesis
        by (simp add: razor_families_def before or_else_def)
    next
      assume k: "(kind, tag, block) = (STYLE_CONTENT, ''style'', scan_style_content)"
      from k only [THEN spec, of SCRIPT_CONTENT]
      have n: "\<not> valid_symbols SCRIPT_CONTENT" by (simp add: token_defs)
      from k block n show ?thesis
        by (simp add: razor_families_def before or_else_def raw_content_invalid)
    next
      assume k: "(kind, tag, block) = (TITLE_CONTENT, ''title'', scan_title_content)"
      from k only [THEN spec, of SCRIPT_CONTENT] only [THEN spec, of STYLE_CONTENT]
      have n: "\<not> valid_symbols SCRIPT_CONTENT" "\<not> valid_symbols STYLE_CONTENT"
        by (simp_all add: token_defs)
      from k block n show ?thesis
        by (simp add: razor_families_def before or_else_def raw_content_invalid)
    next
      assume k: "(kind, tag, block) = (TEXTAREA_CONTENT, ''textarea'', scan_textarea_content)"
      from k only [THEN spec, of SCRIPT_CONTENT] only [THEN spec, of STYLE_CONTENT]
        only [THEN spec, of TITLE_CONTENT]
      have n: "\<not> valid_symbols SCRIPT_CONTENT" "\<not> valid_symbols STYLE_CONTENT"
        "\<not> valid_symbols TITLE_CONTENT"
        by (simp_all add: token_defs)
      from k block n show ?thesis
        by (simp add: razor_families_def before or_else_def raw_content_invalid)
    qed
    then show ?thesis
      by (simp add: tree_sitter_razor_external_scanner_scan_def)
  qed
  have texts: "token_text (codes ''abc</'' @ w @ codes ''>rest'') (lx'\<lparr>result_symbol := kind\<rparr>) =
      codes ''abc''" "token_end (lx'\<lparr>result_symbol := kind\<rparr>) = 3"
    by (simp_all add: lx'_def token_text_def token_end_def codes_def)
  have shape: "lx'\<lparr>result_symbol := kind\<rparr> =
      \<lparr>rest = codes ''>rest'', pos = 5 + length w, tok_start = 0, mark = Some 3,
       result_symbol = kind\<rparr>"
    by (simp add: lx'_def)
  from block texts whole show ?thesis
    unfolding shape lx0_def by blast
qed

text \<open>The instance \<open>abc</ScRiPt>rest\<close>.\<close>

theorem raw_content_stops_before_closing_tag_witness:
  "list_all2 (\<lambda>c t. c = t \<or> c = t - 32) (codes ''ScRiPt'') (codes ''script'') \<and>
   scan_script_content \<lparr>csharp_scanner = (0::nat), context_stack = []\<rparr>
     (lexer_on (codes ''abc</ScRiPt>rest'')) (admissible [SCRIPT_CONTENT, 0]) =
   Return True \<lparr>csharp_scanner = 0, context_stack = []\<rparr>
     \<lparr>rest = codes ''>rest'', pos = 11, tok_start = 0, mark = Some 3,
      result_symbol = SCRIPT_CONTENT\<rparr> \<and>
   tree_sitter_razor_external_scanner_scan sample_csharp_scan
     \<lparr>csharp_scanner = 0, context_stack = []\<rparr>
     (lexer_on (codes ''abc</ScRiPt>rest'')) (admissible [SCRIPT_CONTENT, 0]) =
   (True, \<lparr>csharp_scanner = 0, context_stack = []\<rparr>,
    \<lparr>rest = codes ''>rest'', pos = 11, tok_start = 0, mark = Some 3,
     result_symbol = SCRIPT_CONTENT\<rparr>) \<and>
   token_text (codes ''abc</ScRiPt>rest'')
     \<lparr>rest = codes ''>rest'', pos = 11, tok_start = 0, mark = Some 3,
      result_symbol = SCRIPT_CONTENT\<rparr> = codes ''abc''"
proof -
  have variant: "list_all2 (\<lambda>c t. c = t \<or> c = t - 32) (codes ''ScRiPt'') (codes ''script'')"
    by (simp add: codes_def)
  have inst: "(SCRIPT_CONTENT, ''script'', scan_script_content) =
        (SCRIPT_CONTENT, ''script'', scan_script_content) \<or>
      (SCRIPT_CONTENT, ''script'', scan_script_content) =
        (STYLE_CONTENT, ''style'', scan_style_content) \<or>
      (SCRIPT_CONTENT, ''script'', scan_script_content) =
        (TITLE_CONTENT, ''title'', scan_title_content) \<or>
      (SCRIPT_CONTENT, ''script'', scan_script_content) =
        (TEXTAREA_CONTENT, ''textarea'', scan_textarea_content)"
    by simp
  have valid: "(admissible [SCRIPT_CONTENT, 0]) SCRIPT_CONTENT" by simp
  have only: "\<forall>k. (k = SCRIPT_CONTENT \<or> k = STYLE_CONTENT \<or> k = TITLE_CONTENT \<or>
                   k = TEXTAREA_CONTENT) \<and> (admissible [SCRIPT_CONTENT, 0]) k \<longrightarrow>
               k = SCRIPT_CONTENT"
    by (auto simp: token_defs)
  have markup: "context_stack \<lparr>csharp_scanner = (0::nat), context_stack = []\<rparr> \<noteq> [] \<or>
      (\<not> (admissible [SCRIPT_CONTENT, 0]) TEXT_WITH_LITERAL_AT \<and>
       \<not> (admissible [SCRIPT_CONTENT, 0]) HTML_TEXT_CONTENT)"
    by (simp add: token_defs)
  note t = raw_content_stops_before_closing_tag [where csharp_scan = sample_csharp_scan
      and scanner = "\<lparr>csharp_scanner = (0::nat), context_stack = []\<rparr>"
      and kind = SCRIPT_CONTENT and tag = "''script''" and block = scan_script_content
      and w = "codes ''ScRiPt''" and valid_symbols = "admissible [SCRIPT_CONTENT, 0]",
      OF inst variant valid]
  from t [THEN conjunct1] t [THEN conjunct2, THEN conjunct1]
    t [THEN conjunct2, THEN conjunct2, THEN conjunct2, THEN mp, OF conjI [OF only markup]]
  show ?thesis
    using variant by (simp add: codes_def)
qed

end
